theory Spec2Isabelle
  imports Complex_Main "HOL-Library.Word" "HOL-Library.Product_Lexorder" "HOL-Library.AList"
    "HOL-Library.Log_Nat"
begin

unbundle bit_operations_syntax

section \<open>Event types and the event type table (wtf.db.EventTypeTable)\<close>

text \<open>
  An event type carries its numeric id, its unique name, its class and a bitmask of
  flags. The flag constants of \<^verbatim>\<open>wtf.data.EventFlag\<close> are declared outside the files at
  hand, so every function that tests a flag takes the flag's bit as a parameter
  (written \<open>SYSTEM_TIME\<close>, as in the source).
\<close>

datatype EventClass = INSTANCE | SCOPE

record EventType =
  type_id :: nat
  type_name :: string
  eventClass :: EventClass
  flags :: "32 word"

text \<open>
  The table: \<^verbatim>\<open>nextTypeId_\<close>, \<^verbatim>\<open>eventsById_\<close> (a sparse array read at numeric ids) and
  \<^verbatim>\<open>eventsByName_\<close>, an object literal \<^verbatim>\<open>{}\<close> used as a dictionary. A property read
  \<^verbatim>\<open>eventsByName_[name]\<close> finds the object's own properties first and then those that
  every object literal inherits from \<^verbatim>\<open>Object.prototype\<close>: the members that the
  language standard gives it and the accessors that the engines add. All of them are
  functions, except \<^verbatim>\<open>__proto__\<close>, which reads as the prototype object itself; none
  of them is an event type, and all of them are truthy.
\<close>

definition Object_prototype :: "string list" where
  "Object_prototype =
     [''constructor'', ''toString'', ''toLocaleString'', ''valueOf'', ''hasOwnProperty'',
      ''isPrototypeOf'', ''propertyIsEnumerable'', ''__proto__'', ''__defineGetter__'',
      ''__defineSetter__'', ''__lookupGetter__'', ''__lookupSetter__'']"

text \<open>
  What a read of \<^verbatim>\<open>eventsByName_[name]\<close> can yield besides \<^verbatim>\<open>undefined\<close>: an event
  type stored in the table, or the inherited member of that name.
\<close>

datatype JSObject = TypeObject EventType | PrototypeMember string

definition property :: "(string \<rightharpoonup> EventType) \<Rightarrow> string \<Rightarrow> JSObject option" where
  "property obj n =
     (case obj n of
        Some e \<Rightarrow> Some (TypeObject e)
      | None \<Rightarrow> if n \<in> set Object_prototype then Some (PrototypeMember n) else None)"

text \<open>
  The reads \<^verbatim>\<open>.id\<close> and \<^verbatim>\<open>.flags\<close> on such a value. The inherited members have
  neither property: \<^verbatim>\<open>.id\<close> is \<^verbatim>\<open>undefined\<close> (\<open>None\<close>), and \<^verbatim>\<open>.flags & bit\<close> is 0,
  as for a type without flags.
\<close>

definition idOf :: "JSObject \<Rightarrow> nat option" where
  "idOf v = (case v of TypeObject e \<Rightarrow> Some (type_id e) | PrototypeMember n \<Rightarrow> None)"

definition flagsOf :: "JSObject \<Rightarrow> 32 word" where
  "flagsOf v = (case v of TypeObject e \<Rightarrow> flags e | PrototypeMember n \<Rightarrow> 0)"

record EventTypeTable =
  nextTypeId :: nat
  eventsById :: "nat \<rightharpoonup> EventType"
  eventsByName :: "string \<rightharpoonup> EventType"

definition new_EventTypeTable :: EventTypeTable where
  "new_EventTypeTable = \<lparr>nextTypeId = 1, eventsById = Map.empty, eventsByName = Map.empty\<rparr>"

text \<open>
  \<^verbatim>\<open>defineType\<close> returns what it found or stored, together with the updated table. A
  name for which the read yields nothing gets its type object stored with the \<^verbatim>\<open>id\<close>
  field assigned. Any other name returns what the read yielded and leaves the table
  alone; for the name of an inherited member that is the member, whether or not a type
  of that name was ever defined. The store is reached only for names that are not
  inherited, so it always creates an own property.
\<close>

definition defineType :: "EventTypeTable \<Rightarrow> EventType \<Rightarrow> JSObject \<times> EventTypeTable" where
  "defineType t eventType =
     (case property (eventsByName t) (type_name eventType) of
        None \<Rightarrow>
          (let e = eventType\<lparr>type_id := nextTypeId t\<rparr>
           in (TypeObject e,
               t\<lparr>nextTypeId := nextTypeId t + 1,
                 eventsById := (eventsById t)(type_id e \<mapsto> e),
                 eventsByName := (eventsByName t)(type_name e \<mapsto> e)\<rparr>))
      | Some existingEventType \<Rightarrow> (existingEventType, t))"

definition getById :: "EventTypeTable \<Rightarrow> nat \<Rightarrow> EventType option" where
  "getById t i = eventsById t i"

definition getByName :: "EventTypeTable \<Rightarrow> string \<Rightarrow> JSObject option" where
  "getByName t n = property (eventsByName t) n"

text \<open>
  Defining a list of types in order, collecting what the calls return; \<open>definedTypes\<close>
  keeps the event types among the returned values.
\<close>

fun defineTypes :: "EventTypeTable \<Rightarrow> EventType list \<Rightarrow> JSObject list \<times> EventTypeTable" where
  "defineTypes t [] = ([], t)"
| "defineTypes t (e # es) =
     (let (r, t1) = defineType t e; (rs, t2) = defineTypes t1 es in (r # rs, t2))"

fun definedTypes :: "JSObject list \<Rightarrow> EventType list" where
  "definedTypes [] = []"
| "definedTypes (TypeObject e # vs) = e # definedTypes vs"
| "definedTypes (PrototypeMember n # vs) = definedTypes vs"

section \<open>Event records (wtf.db.EventStruct)\<close>

text \<open>
  The backing buffer is a \<^verbatim>\<open>Uint32Array\<close> read and written only at
  \<^verbatim>\<open>index * STRUCT_SIZE + FIELD\<close>; it is modelled as a list of twelve-cell records, one
  per slot of the buffer. Every cell is an unsigned 32-bit word: a store wraps modulo
  \<open>2 ^ 32\<close>, and storing \<open>-1\<close> yields \<open>0xFFFFFFFF\<close>.
\<close>

record EventStruct =
  es_ID :: "32 word"
  es_TYPE :: "32 word"
  es_PARENT :: "32 word"
  es_DEPTH :: "32 word"
  es_TIME :: "32 word"
  es_NEXT_SIBLING :: "32 word"
  es_ARGUMENTS :: "32 word"
  es_VALUE :: "32 word"
  es_TAG :: "32 word"
  es_END_TIME :: "32 word"
  es_SYSTEM_TIME :: "32 word"
  es_CHILD_TIME :: "32 word"

definition zero_struct :: EventStruct where
  "zero_struct = \<lparr>es_ID = 0, es_TYPE = 0, es_PARENT = 0, es_DEPTH = 0, es_TIME = 0,
     es_NEXT_SIBLING = 0, es_ARGUMENTS = 0, es_VALUE = 0, es_TAG = 0, es_END_TIME = 0,
     es_SYSTEM_TIME = 0, es_CHILD_TIME = 0\<rparr>"

text \<open>
  The duration accessors of the iterator, on the record under the cursor. The cells
  are read as numbers, so the differences are not wrapped; the result is in
  milliseconds.
\<close>

definition getTotalDuration :: "EventStruct \<Rightarrow> real" where
  "getTotalDuration e = (real (unat (es_END_TIME e)) - real (unat (es_TIME e))) / 1000"

definition getUserDuration :: "EventStruct \<Rightarrow> real" where
  "getUserDuration e =
     (let total = real (unat (es_END_TIME e)) - real (unat (es_TIME e))
      in (total - real (unat (es_SYSTEM_TIME e))) / 1000)"

section \<open>Statistics entries (wtf.db.ScopeEventDataEntry)\<close>

record ScopeEventDataEntry =
  eventType :: EventType
  count :: nat
  totalTime :: real
  userTime :: real
  buckets :: "32 word list"

definition new_ScopeEventDataEntry :: "EventType \<Rightarrow> ScopeEventDataEntry" where
  "new_ScopeEventDataEntry ty =
     \<lparr>eventType = ty, count = 0, totalTime = 0, userTime = 0, buckets = replicate 1000 0\<rparr>"

text \<open>
  \<^verbatim>\<open>Math.round\<close> rounds half up; \<^verbatim>\<open>| 0\<close> converts to a signed 32-bit integer.
\<close>

definition Math_round :: "real \<Rightarrow> int" where
  "Math_round x = \<lfloor>x + 1 / 2\<rfloor>"

definition toInt32 :: "int \<Rightarrow> int" where
  "toInt32 i = sint (word_of_int i :: 32 word)"

text \<open>
  \<^verbatim>\<open>buckets_[i]++\<close> on a typed array: an index outside the array reads
  \<^verbatim>\<open>undefined\<close> and the store is dropped; inside, the cell wraps at \<open>2 ^ 32\<close>.
\<close>

definition bucket_incr :: "32 word list \<Rightarrow> int \<Rightarrow> 32 word list" where
  "bucket_incr bs i =
     (if 0 \<le> i \<and> i < int (length bs) then bs[nat i := bs ! nat i + 1] else bs)"

definition bucketIndex :: "EventStruct \<Rightarrow> int" where
  "bucketIndex it =
     (let b = toInt32 (Math_round (getUserDuration it))
      in if b \<ge> 1000 then 999 else b)"

definition appendEvent :: "ScopeEventDataEntry \<Rightarrow> EventStruct \<Rightarrow> ScopeEventDataEntry" where
  "appendEvent s it =
     s\<lparr>count := count s + 1,
       totalTime := totalTime s + getTotalDuration it,
       userTime := userTime s + getUserDuration it,
       buckets := bucket_incr (buckets s) (bucketIndex it)\<rparr>"

text \<open>
  A JavaScript division never raises: a zero divisor yields an infinity or NaN. The
  result type keeps these apart from finite numbers.
\<close>

datatype js_number = Finite real | PosInfinity | NegInfinity | NaN

definition js_div :: "real \<Rightarrow> real \<Rightarrow> js_number" where
  "js_div a b =
     (if b = 0 then (if a = 0 then NaN else if a > 0 then PosInfinity else NegInfinity)
      else Finite (a / b))"

definition getMeanTime :: "32 word \<Rightarrow> ScopeEventDataEntry \<Rightarrow> js_number" where
  "getMeanTime SYSTEM_TIME s =
     (if count s \<noteq> 0 then
        (if flags (eventType s) AND SYSTEM_TIME \<noteq> 0
         then js_div (totalTime s) (real (count s))
         else js_div (userTime s) (real (count s)))
      else Finite 0)"

section \<open>Argument data (wtf.db.ArgumentData)\<close>

text \<open>
  Modelled from the spec: the class \<^verbatim>\<open>wtf.db.ArgumentData\<close> is not among the files at
  hand. The spec describes it as an ordered mapping from argument name to a typed
  value, with \<^verbatim>\<open>merge(other)\<close>: fields from \<open>other\<close> overwrite identical names,
  preserving insertion order. Only integer and string values are modelled.
\<close>

datatype ArgValue = IntValue int | StringValue string

type_synonym ArgumentData = "(string \<times> ArgValue) list"

definition arg_get :: "ArgumentData \<Rightarrow> string \<Rightarrow> ArgValue option" where
  "arg_get a k = map_of a k"

definition arg_merge :: "ArgumentData \<Rightarrow> ArgumentData \<Rightarrow> ArgumentData" where
  "arg_merge a other = fold (\<lambda>(k, v) acc. AList.update k v acc) other a"

text \<open>
  Modelled from the spec: \<^verbatim>\<open>wtf.db.EventType.createScope\<close> and
  \<^verbatim>\<open>createInstance\<close> are not among the files at hand. The spec has them make an
  on-demand SCOPE, respectively INSTANCE, type of the given name; the id is assigned
  by the table.
\<close>

definition createScope :: "string \<Rightarrow> EventType" where
  "createScope n = \<lparr>type_id = 0, type_name = n, eventClass = SCOPE, flags = 0\<rparr>"

definition createInstance :: "string \<Rightarrow> EventType" where
  "createInstance n = \<lparr>type_id = 0, type_name = n, eventClass = INSTANCE, flags = 0\<rparr>"

section \<open>The event list (wtf.db.EventList)\<close>

text \<open>
  \<open>eventData\<close> holds one record per slot of the buffer, so its length is the buffer's
  length over \<^verbatim>\<open>STRUCT_SIZE\<close>. \<open>argumentData\<close> is the sparse array
  \<^verbatim>\<open>argumentData_\<close>: index 0 holds \<^verbatim>\<open>null\<close>, which the map does not bind.
\<close>

record EventList =
  eventTypeTable :: EventTypeTable
  count :: nat
  capacity :: nat
  eventData :: "EventStruct list"
  argumentData :: "nat \<rightharpoonup> ArgumentData"
  nextArgumentDataId :: nat
  firstEventTime :: real
  lastEventTime :: real
  maximumScopeDepth :: nat

definition new_EventList :: "EventTypeTable \<Rightarrow> EventList" where
  "new_EventList t =
     \<lparr>eventTypeTable = t, count = 0, capacity = 0, eventData = [],
      argumentData = Map.empty, nextArgumentDataId = 1,
      firstEventTime = 0, lastEventTime = 0, maximumScopeDepth = 0\<rparr>"

text \<open>
  Typed-array access. A read past the end yields \<^verbatim>\<open>undefined\<close> (\<open>None\<close>); a store
  past the end is dropped.
\<close>

definition rd :: "'a list \<Rightarrow> nat \<Rightarrow> 'a option" where
  "rd xs i = (if i < length xs then Some (xs ! i) else None)"

definition upd :: "'a list \<Rightarrow> nat \<Rightarrow> ('a \<Rightarrow> 'a) \<Rightarrow> 'a list" where
  "upd xs i f = (if i < length xs then xs[i := f (xs ! i)] else xs)"

text \<open>
  Growing: the new buffer has the new capacity, is zero-filled, and receives the first
  \<open>count\<close> records of the old one.
\<close>

definition grow :: "EventList \<Rightarrow> EventList" where
  "grow l =
     (if count l + 1 \<ge> capacity l then
        (let cap = max (capacity l * 2) 1024
         in l\<lparr>capacity := cap,
              eventData := take cap (take (count l) (eventData l) @ replicate cap zero_struct)\<rparr>)
      else l)"

text \<open>
  \<^verbatim>\<open>insert(eventType, time, opt_argData)\<close>, with the time an integer number of
  microseconds. The stores write the cells ID, TYPE, PARENT and TIME of slot \<open>count\<close>,
  and ARGUMENTS when argument data is given; no other cell is written.
\<close>

definition insert_event :: "EventList \<Rightarrow> EventType \<Rightarrow> int \<Rightarrow> ArgumentData option \<Rightarrow> EventList" where
  "insert_event l0 ty time opt_argData =
     (let l = grow l0;
          n = count l;
          ed = upd (eventData l) n
                 (\<lambda>e. e\<lparr>es_ID := of_nat n, es_TYPE := of_nat (type_id ty),
                        es_PARENT := - 1, es_TIME := word_of_int time\<rparr>);
          l1 = (case opt_argData of
                  None \<Rightarrow> l\<lparr>eventData := ed\<rparr>
                | Some args \<Rightarrow>
                    (let i = nextArgumentDataId l
                     in l\<lparr>nextArgumentDataId := i + 1,
                          argumentData := (argumentData l)(i \<mapsto> args),
                          eventData := upd ed n (\<lambda>e. e\<lparr>es_ARGUMENTS := of_nat i\<rparr>)\<rparr>))
      in l1\<lparr>count := n + 1\<rparr>)"

text \<open>A batch of insertions, in order.\<close>

fun insert_all :: "EventList \<Rightarrow> (EventType \<times> int \<times> ArgumentData option) list \<Rightarrow> EventList" where
  "insert_all l [] = l"
| "insert_all l ((ty, time, args) # es) = insert_all (insert_event l ty time args) es"

text \<open>
  The invariant of the buffer that the constructor establishes and every insertion
  keeps: the list has \<open>capacity\<close> slots, there is a free slot past the stored records
  (unless nothing was ever stored), and the free slots have their NEXT_SIBLING and
  END_TIME cells at zero.
\<close>

definition wf_list :: "EventList \<Rightarrow> bool" where
  "wf_list l \<longleftrightarrow>
     length (eventData l) = capacity l
     \<and> (count l < capacity l \<or> (count l = 0 \<and> capacity l = 0))
     \<and> (\<forall>e \<in> set (drop (count l) (eventData l)). es_NEXT_SIBLING e = 0 \<and> es_END_TIME e = 0)"

subsection \<open>Resorting\<close>

text \<open>
  The comparator of \<^verbatim>\<open>resortEvents_\<close> orders two indices by the TIME cells of their
  records and, for equal times, by the ID cells: the lexicographic order on the pair
  (TIME, ID). \<open>sort_key\<close> stands for \<^verbatim>\<open>Array.prototype.sort\<close> with that comparator;
  the ID cells of the stored records differ from each other, so the sorted order is the
  same for every sorting algorithm. The buffer has a slot for every stored record
  (\<open>wf_list\<close> below); for a buffer that had not, the source would compare NaN, and the
  keys of the missing slots are left unspecified here.
\<close>

definition sortKey :: "EventStruct list \<Rightarrow> nat \<Rightarrow> nat \<times> nat" where
  "sortKey ed i = (unat (es_TIME (ed ! i)), unat (es_ID (ed ! i)))"

definition sortIndex :: "EventList \<Rightarrow> nat list" where
  "sortIndex l = sort_key (sortKey (eventData l)) [0..<count l]"

text \<open>
  The rearranged buffer has the old length: record \<open>n\<close> is the old record
  \<open>sortIndex ! n\<close> with its ID cell renumbered to \<open>n\<close>; the slots from \<open>count\<close> on are
  zero. The cached first and last event times are read back through an iterator, in
  milliseconds; they stay at 0 for an empty list (and, here, for a buffer without a
  slot for its first or last record, where the source would store NaN).
\<close>

definition renumbered :: "EventStruct list \<Rightarrow> nat list \<Rightarrow> EventStruct list" where
  "renumbered ed ix =
     map (\<lambda>(n, k). (case rd ed k of None \<Rightarrow> zero_struct | Some e \<Rightarrow> e)\<lparr>es_ID := of_nat n\<rparr>)
       (enumerate 0 ix)"

definition getTime :: "EventStruct \<Rightarrow> real" where
  "getTime e = real (unat (es_TIME e)) / 1000"

definition getEndTime :: "EventStruct \<Rightarrow> real" where
  "getEndTime e = real (unat (es_END_TIME e)) / 1000"

definition isScope :: "EventStruct \<Rightarrow> bool" where
  "isScope e = (es_END_TIME e \<noteq> 0)"

definition resortEvents :: "EventList \<Rightarrow> EventList" where
  "resortEvents l =
     (let ed = eventData l;
          newData = take (length ed) (renumbered ed (sortIndex l) @ replicate (length ed) zero_struct);
          l1 = l\<lparr>eventData := newData, firstEventTime := 0, lastEventTime := 0\<rparr>
      in if count l \<noteq> 0 then
           (case (rd newData 0, rd newData (count l - 1)) of
              (Some a, Some b) \<Rightarrow>
                l1\<lparr>firstEventTime := getTime a,
                   lastEventTime := (if isScope b then getEndTime b else getTime b)\<rparr>
            | _ \<Rightarrow> l1)
         else l1)"

subsection \<open>Rebuilding the scopes\<close>

text \<open>
  What \<^verbatim>\<open>rescopeEvents_\<close> can raise. \<open>TypeError\<close> is JavaScript's, raised by a property
  read on \<^verbatim>\<open>null\<close> or \<^verbatim>\<open>undefined\<close>. \<open>Unmodelled\<close> marks the two places where the
  run leaves what is modelled here: a \<^verbatim>\<open>name\<close> argument that is not a string, and a
  merge with argument data that is absent.
\<close>

datatype error = TypeError | Unmodelled

text \<open>
  The ids of the four built-in types, looked up once before the loop; \<open>None\<close> stands
  for the source's \<^verbatim>\<open>-1\<close> and for an \<^verbatim>\<open>id\<close> that is \<^verbatim>\<open>undefined\<close>, neither of which
  a TYPE cell equals.
\<close>

record BuiltinIds =
  scopeEnterId :: "nat option"
  scopeLeaveId :: "nat option"
  appendScopeDataId :: "nat option"
  timeStampId :: "nat option"

definition builtinIds :: "EventTypeTable \<Rightarrow> BuiltinIds" where
  "builtinIds t =
     \<lparr>scopeEnterId = Option.bind (getByName t ''wtf.scope#enter'') idOf,
      scopeLeaveId = Option.bind (getByName t ''wtf.scope#leave'') idOf,
      appendScopeDataId = Option.bind (getByName t ''wtf.scope#appendData'') idOf,
      timeStampId = Option.bind (getByName t ''wtf.trace#timeStamp'') idOf\<rparr>"

text \<open>
  The loop state: the list being rewritten and the four stacks. \<open>stack\<close>,
  \<open>childTimeStack\<close> and \<open>systemTimeStack\<close> are typed arrays of 256 cells; \<open>typeStack\<close>
  is an ordinary array, which grows on demand.
\<close>

record Rescope =
  lst :: EventList
  stack :: "32 word list"
  typeStack :: "nat \<rightharpoonup> JSObject"
  childTimeStack :: "32 word list"
  systemTimeStack :: "32 word list"
  stackTop :: nat
  stackMax :: nat

definition init_rescope :: "EventList \<Rightarrow> Rescope" where
  "init_rescope l =
     \<lparr>lst = l, stack = replicate 256 0, typeStack = Map.empty,
      childTimeStack = replicate 256 0, systemTimeStack = replicate 256 0,
      stackTop = 0, stackMax = 0\<rparr>"

text \<open>
  Numbers that may be \<^verbatim>\<open>undefined\<close> or NaN are options; storing one of those into
  a typed array stores 0, and an addition with one of them is NaN.
\<close>

definition u32 :: "32 word option \<Rightarrow> 32 word" where
  "u32 v = (case v of None \<Rightarrow> 0 | Some w \<Rightarrow> w)"

definition toUint32 :: "int option \<Rightarrow> 32 word" where
  "toUint32 v = (case v of None \<Rightarrow> 0 | Some i \<Rightarrow> word_of_int i)"

definition num_add :: "int option \<Rightarrow> int option \<Rightarrow> int option" where
  "num_add a b = (case (a, b) of (Some x, Some y) \<Rightarrow> Some (x + y) | _ \<Rightarrow> None)"

definition num_sub :: "int option \<Rightarrow> int option \<Rightarrow> int option" where
  "num_sub a b = (case (a, b) of (Some x, Some y) \<Rightarrow> Some (x - y) | _ \<Rightarrow> None)"

text \<open>Access to the record of an event whose id may be \<^verbatim>\<open>undefined\<close>.\<close>

definition rdo :: "EventStruct list \<Rightarrow> 32 word option \<Rightarrow> EventStruct option" where
  "rdo ed i = (case i of None \<Rightarrow> None | Some w \<Rightarrow> rd ed (unat w))"

definition updo :: "EventStruct list \<Rightarrow> 32 word option \<Rightarrow> (EventStruct \<Rightarrow> EventStruct) \<Rightarrow> EventStruct list" where
  "updo ed i f = (case i of None \<Rightarrow> ed | Some w \<Rightarrow> upd ed (unat w) f)"

definition argName :: "ArgumentData \<Rightarrow> string option" where
  "argName a = (case arg_get a ''name'' of Some (StringValue s) \<Rightarrow> Some s | _ \<Rightarrow> None)"

text \<open>
  The on-demand type of a generic enter or time stamp: what \<^verbatim>\<open>getByName\<close> yields for
  the name, if it yields anything, otherwise a newly defined type.
\<close>

definition resolveType ::
  "(string \<Rightarrow> EventType) \<Rightarrow> EventList \<Rightarrow> 32 word \<Rightarrow> error + (JSObject \<times> EventList)" where
  "resolveType create l argsId =
     (case argumentData l (unat argsId) of
        None \<Rightarrow> Inl TypeError
      | Some args \<Rightarrow>
          (case argName args of
             None \<Rightarrow> Inl Unmodelled
           | Some nm \<Rightarrow>
               (case getByName (eventTypeTable l) nm of
                  Some ty \<Rightarrow> Inr (ty, l)
                | None \<Rightarrow>
                    (let (ty, t') = defineType (eventTypeTable l) (create nm)
                     in Inr (ty, l\<lparr>eventTypeTable := t'\<rparr>)))))"

text \<open>
  The store of \<^verbatim>\<open>newEventType.id\<close> into the TYPE cell of record \<open>n\<close>; an \<^verbatim>\<open>id\<close> that
  is \<^verbatim>\<open>undefined\<close> is stored as 0.
\<close>

definition setType :: "EventList \<Rightarrow> nat \<Rightarrow> JSObject \<Rightarrow> EventList" where
  "setType l n ty =
     l\<lparr>eventData := upd (eventData l) n
                       (\<lambda>e. e\<lparr>es_TYPE := (case idOf ty of None \<Rightarrow> 0 | Some i \<Rightarrow> of_nat i)\<rparr>)\<rparr>"

definition pushScope :: "Rescope \<Rightarrow> 32 word \<Rightarrow> JSObject \<Rightarrow> Rescope" where
  "pushScope st i ty =
     (let top = stackTop st + 1
      in st\<lparr>stackTop := top, stack := (stack st)[top := i],
            typeStack := (typeStack st)(top \<mapsto> ty), stackMax := max (stackMax st) top\<rparr>)"

text \<open>
  A scope leave at record \<open>n\<close>. \<open>parentId\<close> is \<^verbatim>\<open>stack[stackTop]\<close> as read at the head of
  the iteration, \<open>time\<close> the TIME cell of record \<open>n\<close>. With an empty stack \<open>stackTop\<close>
  becomes \<open>-1\<close>, which is truthy, and the read of \<^verbatim>\<open>typeStack[-1].flags\<close> raises.
\<close>

definition leaveScope ::
  "32 word \<Rightarrow> Rescope \<Rightarrow> nat \<Rightarrow> 32 word option \<Rightarrow> 32 word \<Rightarrow> 32 word \<Rightarrow> error + Rescope" where
  "leaveScope SYSTEM_TIME st n parentId nextEventId time =
     (let l = lst st;
          ed0 = upd (eventData l) n (\<lambda>e. e\<lparr>es_NEXT_SIBLING := 0\<rparr>)
      in if stackTop st = 0 then Inl TypeError
         else
           (let top = stackTop st - 1;
                ed1 = updo ed0 parentId (\<lambda>e. e\<lparr>es_NEXT_SIBLING := nextEventId\<rparr>);
                duration = num_sub (Some (uint time))
                             (map_option (\<lambda>e. uint (es_TIME e)) (rdo ed1 parentId));
                childTime = rd (childTimeStack st) top;
                systemTime = rd (systemTimeStack st) top;
                ed2 = updo ed1 parentId
                        (\<lambda>e. e\<lparr>es_END_TIME := time, es_SYSTEM_TIME := u32 systemTime,
                               es_CHILD_TIME := u32 childTime\<rparr>);
                cts = (childTimeStack st)[top := 0];
                sts = (systemTimeStack st)[top := 0];
                st1 = st\<lparr>lst := l\<lparr>eventData := ed2\<rparr>, stackTop := top,
                         childTimeStack := cts, systemTimeStack := sts\<rparr>
            in if top \<noteq> 0 then
                 (case typeStack st top of
                    None \<Rightarrow> Inl TypeError
                  | Some ty \<Rightarrow>
                      (let cts' = cts[top - 1 :=
                                    toUint32 (num_add (map_option uint (rd cts (top - 1))) duration)];
                           systemTime' =
                             (if flagsOf ty AND SYSTEM_TIME \<noteq> 0
                              then num_add (map_option uint systemTime) duration
                              else map_option uint systemTime);
                           sts' = sts[top - 1 :=
                                    toUint32 (num_add (map_option uint (rd sts (top - 1))) systemTime')]
                       in Inr (st1\<lparr>childTimeStack := cts', systemTimeStack := sts'\<rparr>)))
               else Inr st1))"

text \<open>
  \<^verbatim>\<open>appendScopeData_(scopeId, argsId)\<close>: a scope without arguments adopts the id,
  otherwise the scope's argument data is merged with the appended one.
\<close>

definition appendScopeData :: "EventList \<Rightarrow> 32 word option \<Rightarrow> 32 word \<Rightarrow> error + EventList" where
  "appendScopeData l scopeId argsId =
     (case map_option es_ARGUMENTS (rdo (eventData l) scopeId) of
        None \<Rightarrow> Inr (l\<lparr>eventData := updo (eventData l) scopeId (\<lambda>e. e\<lparr>es_ARGUMENTS := argsId\<rparr>)\<rparr>)
      | Some scopeArgsId \<Rightarrow>
          if scopeArgsId = 0 then
            Inr (l\<lparr>eventData := updo (eventData l) scopeId (\<lambda>e. e\<lparr>es_ARGUMENTS := argsId\<rparr>)\<rparr>)
          else
            (case argumentData l (unat scopeArgsId) of
               None \<Rightarrow> Inl TypeError
             | Some sargs \<Rightarrow>
                 (case argumentData l (unat argsId) of
                    None \<Rightarrow> Inl Unmodelled
                  | Some oargs \<Rightarrow>
                      Inr (l\<lparr>argumentData :=
                               (argumentData l)(unat scopeArgsId \<mapsto> arg_merge sargs oargs)\<rparr>))))"

text \<open>
  One iteration of the loop of \<^verbatim>\<open>rescopeEvents_\<close>, at record \<open>n\<close>. The head of the
  body stores PARENT, DEPTH and NEXT_SIBLING of the record and yields, with the new
  state, \<^verbatim>\<open>parentId\<close> and \<^verbatim>\<open>nextEventId\<close>.
\<close>

definition rescope_head :: "Rescope \<Rightarrow> nat \<Rightarrow> Rescope \<times> 32 word option \<times> 32 word" where
  "rescope_head st n =
     (let l = lst st;
          parentId = rd (stack st) (stackTop st);
          ed1 = upd (eventData l) n
                  (\<lambda>e. e\<lparr>es_PARENT := u32 parentId, es_DEPTH := of_nat (stackTop st)\<rparr>);
          nextEventId = (if n + 1 < count l then u32 (map_option es_ID (rd ed1 (n + 1))) else 0);
          ed2 = upd ed1 n (\<lambda>e. e\<lparr>es_NEXT_SIBLING := nextEventId\<rparr>)
      in (st\<lparr>lst := l\<lparr>eventData := ed2\<rparr>\<rparr>, parentId, nextEventId))"

text \<open>The branches for a generic scope enter, a generic time stamp and any other type.\<close>

definition genericEnter :: "Rescope \<Rightarrow> nat \<Rightarrow> EventStruct \<Rightarrow> error + Rescope" where
  "genericEnter st n e =
     (case resolveType createScope (lst st) (es_ARGUMENTS e) of
        Inl err \<Rightarrow> Inl err
      | Inr (ty, l3) \<Rightarrow> Inr (pushScope (st\<lparr>lst := setType l3 n ty\<rparr>) (es_ID e) ty))"

definition genericTimeStamp :: "Rescope \<Rightarrow> nat \<Rightarrow> EventStruct \<Rightarrow> error + Rescope" where
  "genericTimeStamp st n e =
     (case resolveType createInstance (lst st) (es_ARGUMENTS e) of
        Inl err \<Rightarrow> Inl err
      | Inr (ty, l3) \<Rightarrow> Inr (st\<lparr>lst := setType l3 n ty\<rparr>))"

definition otherEvent :: "Rescope \<Rightarrow> EventStruct \<Rightarrow> error + Rescope" where
  "otherEvent st e =
     (case getById (eventTypeTable (lst st)) (unat (es_TYPE e)) of
        None \<Rightarrow> Inl TypeError
      | Some ty \<Rightarrow>
          if eventClass ty = SCOPE then Inr (pushScope st (es_ID e) (TypeObject ty)) else Inr st)"

definition rescope_step :: "32 word \<Rightarrow> BuiltinIds \<Rightarrow> Rescope \<Rightarrow> nat \<Rightarrow> error + Rescope" where
  "rescope_step SYSTEM_TIME ids st n =
     (let (st2, parentId, nextEventId) = rescope_head st n
      in case rd (eventData (lst st2)) n of
           None \<Rightarrow> Inl TypeError
         | Some e \<Rightarrow>
             (let typeId = unat (es_TYPE e)
              in if Some typeId = scopeEnterId ids then genericEnter st2 n e
                 else if Some typeId = scopeLeaveId ids then
                   leaveScope SYSTEM_TIME st2 n parentId nextEventId (es_TIME e)
                 else if Some typeId = appendScopeDataId ids then
                   (case appendScopeData (lst st2) parentId (es_ARGUMENTS e) of
                      Inl err \<Rightarrow> Inl err
                    | Inr l3 \<Rightarrow> Inr (st2\<lparr>lst := l3\<rparr>))
                 else if Some typeId = timeStampId ids then genericTimeStamp st2 n e
                 else otherEvent st2 e))"

fun rescope_loop :: "32 word \<Rightarrow> BuiltinIds \<Rightarrow> nat list \<Rightarrow> Rescope \<Rightarrow> error + Rescope" where
  "rescope_loop SYSTEM_TIME ids [] st = Inr st"
| "rescope_loop SYSTEM_TIME ids (n # ns) st =
     (case rescope_step SYSTEM_TIME ids st n of
        Inl err \<Rightarrow> Inl err
      | Inr st' \<Rightarrow> rescope_loop SYSTEM_TIME ids ns st')"

definition rescopeEvents :: "32 word \<Rightarrow> EventList \<Rightarrow> error + EventList" where
  "rescopeEvents SYSTEM_TIME l =
     (case rescope_loop SYSTEM_TIME (builtinIds (eventTypeTable l)) [0..<count l] (init_rescope l) of
        Inl err \<Rightarrow> Inl err
      | Inr st \<Rightarrow> Inr ((lst st)\<lparr>maximumScopeDepth := stackMax st\<rparr>))"

text \<open>
  \<^verbatim>\<open>rebuild\<close>: resort, then rescope. The third phase only calls the ancillary lists;
  the frame list is modelled further down.
\<close>

definition rebuild :: "32 word \<Rightarrow> EventList \<Rightarrow> error + EventList" where
  "rebuild SYSTEM_TIME l = rescopeEvents SYSTEM_TIME (resortEvents l)"

subsection \<open>Looking up events by time\<close>

text \<open>
  The binary search of \<^verbatim>\<open>getIndexOfEventNearTime\<close>. \<open>low\<close> and \<open>high\<close> are never
  negative inside the loop, so the truncation \<^verbatim>\<open>| 0\<close> of their half sum is \<open>div\<close>.
\<close>

function nearTime_loop :: "EventStruct list \<Rightarrow> real \<Rightarrow> int \<Rightarrow> int \<Rightarrow> int" where
  "nearTime_loop ed time low high =
     (if low < high then
        (let mid = (low + high) div 2;
             midValue = map_option (\<lambda>e. real (unat (es_TIME e))) (rd ed (nat mid))
         in if (case midValue of None \<Rightarrow> False | Some v \<Rightarrow> v < time)
            then nearTime_loop ed time (mid + 1) high
            else nearTime_loop ed time low mid)
      else low)"
  by pat_completeness auto
termination
  by (relation "measure (\<lambda>(ed, time, low, high). nat (high - low))") auto

text \<open>
  The query time is a double, and so is its product with 1000: the double nearest to
  the exact product, a tie going to the even significand. \<open>double\<close> rounds a real to
  53 significant bits, and to a multiple of \<open>2 ^ -1074\<close> below the normal range;
  \<open>binade x\<close> is the exponent of the power of two at or below \<open>\<bar>x\<bar>\<close>. Overflow is left
  out: a product beyond the largest double compares with the TIME cells, which are below
  \<open>2 ^ 32\<close>, as the infinity of its sign does. A query time that is not a double stands
  for the double nearest to it, as a numeric literal does; NaN is not among the inputs.
\<close>

definition round_half_even :: "real \<Rightarrow> int" where
  "round_half_even r =
     (let f = \<lfloor>r\<rfloor>; d = r - of_int f
      in if d < 1 / 2 then f else if d > 1 / 2 then f + 1 else if even f then f else f + 1)"

definition binade :: "real \<Rightarrow> int" where
  "binade x =
     (let a = \<bar>x\<bar>
      in if a \<ge> 1 then int (floorlog 2 (nat \<lfloor>a\<rfloor>)) - 1
         else - int (floorlog 2 (nat (\<lceil>1 / a\<rceil> - 1))))"

definition double :: "real \<Rightarrow> real" where
  "double x =
     (if x = 0 then 0
      else (let ulp = 2 powi (max (binade x) (- 1022) - 52)
            in of_int (round_half_even (x / ulp)) * ulp))"

definition getIndexOfEventNearTime :: "EventList \<Rightarrow> real \<Rightarrow> int" where
  "getIndexOfEventNearTime l t =
     (let time = double (double t * 1000);
          low = nearTime_loop (eventData l) time 0 (int (count l) - 1)
      in if low \<noteq> 0 then low - 1 else 0)"

section \<open>The frame list (wtf.db.FrameList)\<close>

text \<open>
  The accessors of the iterator that the frame list uses: the argument data of the
  record under the cursor, if its ARGUMENTS cell is not 0, and one argument of it.
\<close>

definition getArguments :: "EventList \<Rightarrow> EventStruct \<Rightarrow> ArgumentData option" where
  "getArguments l e =
     (if es_ARGUMENTS e \<noteq> 0 then argumentData l (unat (es_ARGUMENTS e)) else None)"

definition getArgument :: "EventList \<Rightarrow> EventStruct \<Rightarrow> string \<Rightarrow> ArgValue option" where
  "getArgument l e key = (case getArguments l e of None \<Rightarrow> None | Some args \<Rightarrow> arg_get args key)"

text \<open>
  Modelled from the spec: the class \<^verbatim>\<open>wtf.db.Frame\<close> is not among the files at hand.
  The spec has frames keyed by the \<^verbatim>\<open>number\<close> argument of their events, each with a
  start and an end that may be lacking. A frame records the time in milliseconds of
  its start event and of its end event once they are set; \<^verbatim>\<open>getTime\<close> and
  \<^verbatim>\<open>getEndTime\<close> return these times, and 0 while the event is lacking, which is what
  the test for partial frames in \<^verbatim>\<open>endRebuild\<close> relies on.
\<close>

record Frame =
  number :: "ArgValue option"
  startEvent :: "real option"
  endEvent :: "real option"

definition new_Frame :: "ArgValue option \<Rightarrow> Frame" where
  "new_Frame n = \<lparr>number = n, startEvent = None, endEvent = None\<rparr>"

definition setStartEvent :: "Frame \<Rightarrow> EventStruct \<Rightarrow> Frame" where
  "setStartEvent f it = f\<lparr>startEvent := Some (getTime it)\<rparr>"

definition setEndEvent :: "Frame \<Rightarrow> EventStruct \<Rightarrow> Frame" where
  "setEndEvent f it = f\<lparr>endEvent := Some (getTime it)\<rparr>"

definition Frame_getTime :: "Frame \<Rightarrow> real" where
  "Frame_getTime f = (case startEvent f of None \<Rightarrow> 0 | Some t \<Rightarrow> t)"

definition Frame_getEndTime :: "Frame \<Rightarrow> real" where
  "Frame_getEndTime f = (case endEvent f of None \<Rightarrow> 0 | Some t \<Rightarrow> t)"

text \<open>
  \<open>frames\<close> is the object \<^verbatim>\<open>frames_\<close>, keyed by the value of the \<^verbatim>\<open>number\<close>
  argument (\<open>None\<close> when the event has none); \<open>frameList\<close> is the dense array. Both
  hold the same frame objects, so a frame changed through the map is changed in the
  array as well. The frame events carry a frame number there, and a number never spells
  the name of a member that the object inherits, so a read under a frame number finds
  stored frames only; the map holds the own properties, and a \<^verbatim>\<open>number\<close> that is a
  string is a key of its own here.
\<close>

record FrameList =
  frames :: "ArgValue option \<rightharpoonup> Frame"
  frameList :: "Frame list"

definition new_FrameList :: FrameList where
  "new_FrameList = \<lparr>frames = Map.empty, frameList = []\<rparr>"

definition getCount :: "FrameList \<Rightarrow> nat" where
  "getCount fl = length (frameList fl)"

definition beginRebuild :: "EventTypeTable \<Rightarrow> JSObject option list" where
  "beginRebuild t = [getByName t ''wtf.timing#frameStart'', getByName t ''wtf.timing#frameEnd'']"

definition handleEvent :: "FrameList \<Rightarrow> nat \<Rightarrow> EventList \<Rightarrow> EventStruct \<Rightarrow> FrameList" where
  "handleEvent fl eventTypeIndex l it =
     (let n = getArgument l it ''number'';
          (frame, fl1) =
            (case frames fl n of
               Some f \<Rightarrow> (f, fl)
             | None \<Rightarrow>
                 (let f = new_Frame n
                  in (f, fl\<lparr>frames := (frames fl)(n \<mapsto> f), frameList := frameList fl @ [f]\<rparr>)));
          frame' = (if eventTypeIndex = 0 then setStartEvent frame it
                    else if eventTypeIndex = 1 then setEndEvent frame it
                    else frame)
      in fl1\<lparr>frames := (frames fl1)(n \<mapsto> frame'),
             frameList := map (\<lambda>g. if number g = n then frame' else g) (frameList fl1)\<rparr>)"

text \<open>
  The test \<^verbatim>\<open>frame.getTime() && frame.getEndTime()\<close> of \<^verbatim>\<open>endRebuild\<close>, which keeps
  the frames that pass it and deletes the others from the map.
\<close>

definition is_complete :: "Frame \<Rightarrow> bool" where
  "is_complete f \<longleftrightarrow> Frame_getTime f \<noteq> 0 \<and> Frame_getEndTime f \<noteq> 0"

definition endRebuild :: "FrameList \<Rightarrow> FrameList" where
  "endRebuild fl =
     \<lparr>frames = fold (\<lambda>f m. if is_complete f then m else m(number f := None)) (frameList fl) (frames fl),
      frameList = filter is_complete (frameList fl)\<rparr>"

text \<open>
  \<^verbatim>\<open>rebuildAncillaryLists_\<close> for the frame list alone: every record whose type is one of
  the types returned by \<^verbatim>\<open>beginRebuild\<close> is handed to \<^verbatim>\<open>handleEvent\<close> with the
  position of that type, in the order of the records; then \<^verbatim>\<open>endRebuild\<close> runs.
\<close>

definition dispatch :: "JSObject option list \<Rightarrow> EventList \<Rightarrow> FrameList \<Rightarrow> nat \<Rightarrow> FrameList" where
  "dispatch desiredTypes l fl n =
     (case rd (eventData l) n of
        None \<Rightarrow> fl
      | Some it \<Rightarrow>
          fold (\<lambda>(m, d) fl'.
                  (case d of
                     None \<Rightarrow> fl'
                   | Some ty \<Rightarrow>
                       if idOf ty = Some (unat (es_TYPE it)) then handleEvent fl' m l it else fl'))
            (enumerate 0 desiredTypes) fl)"

definition rebuildAncillaryLists :: "EventList \<Rightarrow> FrameList \<Rightarrow> FrameList" where
  "rebuildAncillaryLists l fl =
     endRebuild (fold (\<lambda>n fl'. dispatch (beginRebuild (eventTypeTable l)) l fl' n) [0..<count l] fl)"

text \<open>
  \<^verbatim>\<open>getFrameAtTime\<close>. The search \<^verbatim>\<open>goog.array.binarySelect\<close> with
  \<^verbatim>\<open>wtf.db.Frame.selector\<close> belongs to code outside the files at hand; its result is a
  parameter. \<open>clamp\<close> is \<^verbatim>\<open>goog.math.clamp\<close>.
\<close>

definition clamp :: "int \<Rightarrow> int \<Rightarrow> int \<Rightarrow> int" where
  "clamp v lo hi = min (max v lo) hi"

definition getFrameAtTime :: "(Frame list \<Rightarrow> real \<Rightarrow> int) \<Rightarrow> FrameList \<Rightarrow> real \<Rightarrow> Frame option" where
  "getFrameAtTime binarySelect fl time =
     (if frameList fl = [] then None
      else
        (let index = binarySelect (frameList fl) time;
             index1 = (if index < 0 then - index - 2 else index);
             index2 = clamp index1 0 (int (length (frameList fl)) - 1)
         in case rd (frameList fl) (nat index2) of
              None \<Rightarrow> None
            | Some frame \<Rightarrow>
                if Frame_getTime frame \<le> time \<and> Frame_getEndTime frame \<ge> time
                then Some frame else None))"

text \<open>
  Two lists agree on their keys when they store the same number of records in buffers
  of the same capacity that agree on every ID and every TIME cell; they have the same
  tail when their buffers agree on the free slots.
\<close>

definition same_keys :: "EventList \<Rightarrow> EventList \<Rightarrow> bool" where
  "same_keys l l' \<longleftrightarrow>
     count l' = count l
     \<and> capacity l' = capacity l
     \<and> map es_ID (eventData l') = map es_ID (eventData l)
     \<and> map es_TIME (eventData l') = map es_TIME (eventData l)"

definition same_tail :: "EventList \<Rightarrow> EventList \<Rightarrow> bool" where
  "same_tail l l' \<longleftrightarrow> drop (count l) (eventData l') = drop (count l) (eventData l)"

text \<open>
  The ID cells are in order when every stored record has its position in its ID cell;
  the comparator of the resort then breaks ties by position. The bound on the count
  holds for every buffer that fits a typed array.
\<close>

definition ids_ok :: "EventList \<Rightarrow> bool" where
  "ids_ok l \<longleftrightarrow>
     count l \<le> 2 ^ 32 \<and> count l \<le> length (eventData l)
     \<and> (\<forall>k < count l. es_ID (eventData l ! k) = of_nat k)"

text \<open>The scope stack refers to stored records only.\<close>

definition stack_ok :: "Rescope \<Rightarrow> bool" where
  "stack_ok st \<longleftrightarrow> (\<forall>v \<in> set (stack st). unat v < count (lst st))"

section \<open>Example traces\<close>

text \<open>
  Small traces on which the code is run further down. Each declares its event types in
  a fresh table and inserts its events, with the types that the table returned, into a
  fresh list. The SYSTEM_TIME flag is taken
  to be bit 2 (the value 4) there; any other bit would do.

  \<^item> \<open>near_time_example\<close>: three instance events at 0, 1000 and 2000 microseconds.
  \<^item> \<open>system_time_example\<close>: a scope \<open>A\<close> from 0 to 500 containing a scope \<open>B\<close>
    from 100 to 300, where the type of \<open>B\<close> carries SYSTEM_TIME and that of \<open>A\<close> does
    not. \<open>flagged_parent_example\<close> is the same trace with the flag on \<open>A\<close> instead.
  \<^item> \<open>append_data_example\<close>: an instance event without arguments at 0, then a
    \<^verbatim>\<open>wtf.scope#appendData\<close> event at 10 while no scope is open.
  \<^item> \<open>time_stamp_example\<close>: a generic time stamp named \<open>A\<close> at 0, where \<open>A\<close> is also
    the name of a declared scope type, then an instance event at 10.
  \<^item> \<open>decimal_time_example\<close>: three instance events at 0, 2007 and 3000.
  \<^item> \<open>inherited_name_example\<close>: a generic scope enter at 0 for a scope named
    \<^verbatim>\<open>constructor\<close>.
  \<^item> \<open>frame_example\<close>: the start of frame 1 at 1000, its end at 17000 and the start of
    frame 2 at 17000, with no end of frame 2.
  \<^item> \<open>unclosed_scope_example\<close>: a scope \<open>A\<close> from 0 to 500, then a second scope \<open>A\<close>
    entered at 1000 and not left before the trace ends.
\<close>

definition declared :: "string \<Rightarrow> EventClass \<Rightarrow> 32 word \<Rightarrow> EventType" where
  "declared n c f = \<lparr>type_id = 0, type_name = n, eventClass = c, flags = f\<rparr>"

definition near_time_example :: EventList where
  "near_time_example =
     (let (vs, t) = defineTypes new_EventTypeTable [declared ''X'' INSTANCE 0];
          tys = definedTypes vs
      in insert_all (new_EventList t)
           [(tys ! 0, 0, None), (tys ! 0, 1000, None), (tys ! 0, 2000, None)])"

definition flagged_parent_example :: EventList where
  "flagged_parent_example =
     (let (vs, t) = defineTypes new_EventTypeTable
                       [declared ''A'' SCOPE 4, declared ''B'' SCOPE 0,
                        declared ''wtf.scope#leave'' INSTANCE 0];
          tys = definedTypes vs
      in insert_all (new_EventList t)
           [(tys ! 0, 0, None), (tys ! 1, 100, None), (tys ! 2, 300, None), (tys ! 2, 500, None)])"

definition system_time_example :: EventList where
  "system_time_example =
     (let (vs, t) = defineTypes new_EventTypeTable
                       [declared ''A'' SCOPE 0, declared ''B'' SCOPE 4,
                        declared ''wtf.scope#leave'' INSTANCE 0];
          tys = definedTypes vs
      in insert_all (new_EventList t)
           [(tys ! 0, 0, None), (tys ! 1, 100, None), (tys ! 2, 300, None), (tys ! 2, 500, None)])"

definition append_data_example :: EventList where
  "append_data_example =
     (let (vs, t) = defineTypes new_EventTypeTable
                       [declared ''X'' INSTANCE 0, declared ''wtf.scope#appendData'' INSTANCE 0];
          tys = definedTypes vs
      in insert_all (new_EventList t)
           [(tys ! 0, 0, None), (tys ! 1, 10, Some [(''a'', IntValue 1)])])"

definition time_stamp_example :: EventList where
  "time_stamp_example =
     (let (vs, t) = defineTypes new_EventTypeTable
                       [declared ''wtf.trace#timeStamp'' INSTANCE 0, declared ''A'' SCOPE 0,
                        declared ''X'' INSTANCE 0];
          tys = definedTypes vs
      in insert_all (new_EventList t)
           [(tys ! 0, 0, Some [(''name'', StringValue ''A'')]), (tys ! 2, 10, None)])"

definition frame_example :: EventList where
  "frame_example =
     (let (vs, t) = defineTypes new_EventTypeTable
                       [declared ''wtf.timing#frameStart'' INSTANCE 0,
                        declared ''wtf.timing#frameEnd'' INSTANCE 0];
          tys = definedTypes vs
      in insert_all (new_EventList t)
           [(tys ! 0, 1000, Some [(''number'', IntValue 1)]),
            (tys ! 1, 17000, Some [(''number'', IntValue 1)]),
            (tys ! 0, 17000, Some [(''number'', IntValue 2)])])"

definition unclosed_scope_example :: EventList where
  "unclosed_scope_example =
     (let (vs, t) = defineTypes new_EventTypeTable
                       [declared ''A'' SCOPE 0, declared ''wtf.scope#leave'' INSTANCE 0];
          tys = definedTypes vs
      in insert_all (new_EventList t)
           [(tys ! 0, 0, None), (tys ! 1, 500, None), (tys ! 0, 1000, None)])"

definition decimal_time_example :: EventList where
  "decimal_time_example =
     (let (vs, t) = defineTypes new_EventTypeTable [declared ''X'' INSTANCE 0];
          tys = definedTypes vs
      in insert_all (new_EventList t)
           [(tys ! 0, 0, None), (tys ! 0, 2007, None), (tys ! 0, 3000, None)])"

definition inherited_name_example :: EventList where
  "inherited_name_example =
     (let (vs, t) = defineTypes new_EventTypeTable [declared ''wtf.scope#enter'' SCOPE 0];
          tys = definedTypes vs
      in insert_all (new_EventList t)
           [(tys ! 0, 0, Some [(''name'', StringValue ''constructor'')])])"

section \<open>Properties of the event type table\<close>

lemma property_None: "property obj n = None \<longleftrightarrow> obj n = None \<and> n \<notin> set Object_prototype"
  by (simp add: property_def split: option.splits)

lemma defineType_new:
  assumes "getByName t (type_name e) = None"
  shows "defineType t e =
           (TypeObject (e\<lparr>type_id := nextTypeId t\<rparr>),
            t\<lparr>nextTypeId := nextTypeId t + 1,
              eventsById := (eventsById t)(nextTypeId t \<mapsto> e\<lparr>type_id := nextTypeId t\<rparr>),
              eventsByName := (eventsByName t)(type_name e \<mapsto> e\<lparr>type_id := nextTypeId t\<rparr>)\<rparr>)"
  using assms by (simp add: defineType_def getByName_def Let_def)

lemma defineType_existing:
  assumes "getByName t (type_name e) = Some x"
  shows "defineType t e = (x, t)"
  using assms by (simp add: defineType_def getByName_def)

text \<open>
  Interning, for the names that the table can hold. A name for which \<^verbatim>\<open>getByName\<close>
  yields nothing gets the next id (the first one is 1), and the type becomes retrievable
  by id and by name, while every other id and every other name reads as before. A name
  for which \<^verbatim>\<open>getByName\<close> yields something returns that value, whatever the new
  descriptor says, and leaves the table, its counter included, as it was.
\<close>

lemma defineType_interns:
  "nextTypeId new_EventTypeTable = 1
   \<and> (getByName t (type_name e) = None \<longrightarrow>
        (let (r, t') = defineType t e; e' = e\<lparr>type_id := nextTypeId t\<rparr> in
           r = TypeObject e'
           \<and> nextTypeId t' = nextTypeId t + 1
           \<and> getById t' (nextTypeId t) = Some e'
           \<and> getByName t' (type_name e) = Some r
           \<and> (\<forall>i. i \<noteq> nextTypeId t \<longrightarrow> getById t' i = getById t i)
           \<and> (\<forall>n. n \<noteq> type_name e \<longrightarrow> getByName t' n = getByName t n)))
   \<and> (\<forall>x. getByName t (type_name e) = Some x \<longrightarrow> defineType t e = (x, t))"
  by (simp add: new_EventTypeTable_def defineType_new defineType_existing)
     (simp add: getByName_def getById_def property_def)

text \<open>
  The name of an inherited member is never absent: as long as no type of that name is
  stored, \<^verbatim>\<open>defineType\<close> returns the member and stores nothing, so no type of that
  name is ever stored.
\<close>

lemma defineType_inherited:
  assumes "type_name e \<in> set Object_prototype" and "eventsByName t (type_name e) = None"
  shows "defineType t e = (PrototypeMember (type_name e), t)"
  using assms by (simp add: defineType_def property_def)

text \<open>
  Claim C7. The table interns by name: a type whose name is not yet present gets the
  next id, starting from 1, and is retrievable by id and by name; the function's own
  comment says that it returns the given event type or an existing one. The code does
  not do so for a type named \<^verbatim>\<open>constructor\<close> defined in a fresh table, where no name
  is present: \<^verbatim>\<open>defineType\<close> returns the inherited member of that name instead of the
  type, assigns no id and leaves the table as it was, so that the counter is still at 1,
  no type has id 1, and \<^verbatim>\<open>getByName\<close> yields the member, before and after.
\<close>

theorem defineType_inherited_name:
  "(let e = \<lparr>type_id = 0, type_name = ''constructor'', eventClass = SCOPE, flags = 0\<rparr>;
        (r, t) = defineType new_EventTypeTable e
    in r = PrototypeMember ''constructor''
       \<and> r \<noteq> TypeObject (e\<lparr>type_id := 1\<rparr>)
       \<and> idOf r = None
       \<and> t = new_EventTypeTable
       \<and> nextTypeId t = 1
       \<and> getById t 1 = None
       \<and> getByName t ''constructor'' = Some (PrototypeMember ''constructor'')
       \<and> getByName new_EventTypeTable ''constructor'' = Some (PrototypeMember ''constructor''))"
  by (simp add: defineType_def new_EventTypeTable_def property_def Object_prototype_def
      idOf_def getById_def getByName_def)

section \<open>Properties of the statistics entries\<close>

text \<open>
  Claim C10. The mean time of a scope entry is always a finite number: 0 for an empty
  entry, otherwise the total time over the count when the entry's type carries the
  SYSTEM_TIME flag and the user time over the count when it does not. The division is
  never by zero.
\<close>

theorem getMeanTime_finite:
  "getMeanTime SYSTEM_TIME s =
     (if ScopeEventDataEntry.count s = 0 then Finite 0
      else if flags (eventType s) AND SYSTEM_TIME \<noteq> 0
           then Finite (totalTime s / real (ScopeEventDataEntry.count s))
           else Finite (userTime s / real (ScopeEventDataEntry.count s)))"
  by (simp add: getMeanTime_def js_div_def)

text \<open>
  The histogram of a scope entry. An index is never above 999, and an event whose index
  is not negative increments exactly that bucket and keeps the sum of the buckets equal
  to the count (as long as the count fits a 32-bit cell).
\<close>

lemma bucketIndex_upper: "bucketIndex it \<le> 999"
  by (simp add: bucketIndex_def Let_def)

lemma sum_list_incr:
  fixes xs :: "nat list"
  assumes "i < length xs"
  shows "sum_list (xs[i := xs ! i + 1]) = sum_list xs + 1"
  using assms by (simp add: sum_list_update)

lemma nth_le_sum_list:
  fixes xs :: "nat list"
  assumes "i < length xs"
  shows "xs ! i \<le> sum_list xs"
  using assms by (simp add: member_le_sum_list)

lemma appendEvent_histogram:
  assumes len: "length (buckets s) = 1000"
    and nonneg: "0 \<le> bucketIndex it"
    and inv: "sum_list (map unat (buckets s)) = ScopeEventDataEntry.count s"
    and bound: "ScopeEventDataEntry.count s < 2 ^ 32 - 1"
  shows "sum_list (map unat (buckets (appendEvent s it))) = ScopeEventDataEntry.count (appendEvent s it)
         \<and> length (buckets (appendEvent s it)) = 1000
         \<and> buckets (appendEvent s it)
             = (buckets s)[nat (bucketIndex it) := buckets s ! nat (bucketIndex it) + 1]"
proof -
  define i where "i = nat (bucketIndex it)"
  have i: "i < length (buckets s)"
    using bucketIndex_upper [of it] nonneg len by (simp add: i_def)
  have b: "buckets (appendEvent s it) = (buckets s)[i := buckets s ! i + 1]"
    using bucketIndex_upper [of it] nonneg len
    by (simp add: appendEvent_def bucket_incr_def i_def)
  have "unat (buckets s ! i) \<le> sum_list (map unat (buckets s))"
    using nth_le_sum_list [of i "map unat (buckets s)"] i by simp
  then have "unat (buckets s ! i) < 2 ^ 32 - 1"
    using inv bound by simp
  then have u: "unat (buckets s ! i + 1) = unat (buckets s ! i) + 1"
    by (simp add: unat_word_ariths)
  have "map unat ((buckets s)[i := buckets s ! i + 1])
        = (map unat (buckets s))[i := map unat (buckets s) ! i + 1]"
    using i u by (simp add: map_update)
  then have "sum_list (map unat (buckets (appendEvent s it))) = sum_list (map unat (buckets s)) + 1"
    unfolding b using sum_list_incr [of i "map unat (buckets s)"] i by simp
  moreover have "ScopeEventDataEntry.count (appendEvent s it) = ScopeEventDataEntry.count s + 1"
    by (simp add: appendEvent_def)
  ultimately show ?thesis
    using inv b len by (simp add: i_def)
qed

section \<open>Properties of insertion\<close>

lemma wf_new: "wf_list (new_EventList t)"
  by (simp add: wf_list_def new_EventList_def)

lemma zero_struct_cells [simp]:
  "es_NEXT_SIBLING zero_struct = 0" "es_END_TIME zero_struct = 0"
  by (simp_all add: zero_struct_def)

lemma grow_props:
  assumes "wf_list l"
  shows "count (grow l) = count l"
    and "count l + 1 < capacity (grow l)"
    and "length (eventData (grow l)) = capacity (grow l)"
    and "capacity (grow l) = (if count l + 1 \<ge> capacity l then max (capacity l * 2) 1024 else capacity l)"
    and "take (count l) (eventData (grow l)) = take (count l) (eventData l)"
    and "\<forall>e \<in> set (drop (count l) (eventData (grow l))). es_NEXT_SIBLING e = 0 \<and> es_END_TIME e = 0"
    and "argumentData (grow l) = argumentData l"
    and "nextArgumentDataId (grow l) = nextArgumentDataId l"
    and "eventTypeTable (grow l) = eventTypeTable l"
  using assms
  by (auto simp: wf_list_def grow_def Let_def min_def max_def dest: in_set_dropD in_set_takeD)

lemma upd_length [simp]: "length (upd xs i f) = length xs"
  by (simp add: upd_def)

lemma upd_nth: "i < length xs \<Longrightarrow> upd xs i f ! j = (if j = i then f (xs ! i) else xs ! j)"
  by (simp add: upd_def)

lemma upd_take: "n \<le> i \<Longrightarrow> take n (upd xs i f) = take n xs"
  by (simp add: upd_def)

lemma upd_drop_Suc: "drop (Suc i) (upd xs i f) = drop (Suc i) xs"
  by (simp add: upd_def)

lemma insert_event_props:
  assumes wf: "wf_list l"
  shows "count (insert_event l ty time args) = count l + 1"
    and "capacity (insert_event l ty time args) =
           (if count l + 1 \<ge> capacity l then max (capacity l * 2) 1024 else capacity l)"
    and "length (eventData (insert_event l ty time args)) = capacity (insert_event l ty time args)"
    and "take (count l) (eventData (insert_event l ty time args)) = take (count l) (eventData l)"
    and "drop (count l + 1) (eventData (insert_event l ty time args)) = drop (count l + 1) (eventData (grow l))"
    and "es_ID (eventData (insert_event l ty time args) ! count l) = of_nat (count l)"
    and "es_TYPE (eventData (insert_event l ty time args) ! count l) = of_nat (type_id ty)"
    and "es_TIME (eventData (insert_event l ty time args) ! count l) = word_of_int time"
    and "es_PARENT (eventData (insert_event l ty time args) ! count l) = - 1"
    and "es_NEXT_SIBLING (eventData (insert_event l ty time args) ! count l) = 0"
    and "es_END_TIME (eventData (insert_event l ty time args) ! count l) = 0"
proof -
  note g = grow_props [OF wf]
  have lt: "count l < length (eventData (grow l))"
    using g(2,3) by simp
  have z: "es_NEXT_SIBLING (eventData (grow l) ! count l) = 0 \<and> es_END_TIME (eventData (grow l) ! count l) = 0"
  proof -
    have "eventData (grow l) ! count l \<in> set (drop (count l) (eventData (grow l)))"
      using lt by (metis Cons_nth_drop_Suc list.set_intros(1))
    then show ?thesis using g(6) by blast
  qed
  show "count (insert_event l ty time args) = count l + 1"
    by (simp add: insert_event_def Let_def g(1) split: option.splits)
  show "capacity (insert_event l ty time args) =
           (if count l + 1 \<ge> capacity l then max (capacity l * 2) 1024 else capacity l)"
    using g(4) by (simp add: insert_event_def Let_def split: option.splits)
  show "length (eventData (insert_event l ty time args)) = capacity (insert_event l ty time args)"
    using g(3) by (simp add: insert_event_def Let_def split: option.splits)
  show "take (count l) (eventData (insert_event l ty time args)) = take (count l) (eventData l)"
    using g(5) by (simp add: insert_event_def Let_def g(1) upd_take split: option.splits)
  show "drop (count l + 1) (eventData (insert_event l ty time args)) = drop (count l + 1) (eventData (grow l))"
    by (simp add: insert_event_def Let_def g(1) upd_drop_Suc split: option.splits)
  show "es_ID (eventData (insert_event l ty time args) ! count l) = of_nat (count l)"
    using lt by (simp add: insert_event_def Let_def g(1) upd_nth split: option.splits)
  show "es_TYPE (eventData (insert_event l ty time args) ! count l) = of_nat (type_id ty)"
    using lt by (simp add: insert_event_def Let_def g(1) upd_nth split: option.splits)
  show "es_TIME (eventData (insert_event l ty time args) ! count l) = word_of_int time"
    using lt by (simp add: insert_event_def Let_def g(1) upd_nth split: option.splits)
  show "es_PARENT (eventData (insert_event l ty time args) ! count l) = - 1"
    using lt by (simp add: insert_event_def Let_def g(1) upd_nth split: option.splits)
  show "es_NEXT_SIBLING (eventData (insert_event l ty time args) ! count l) = 0"
    using lt z by (simp add: insert_event_def Let_def g(1) upd_nth split: option.splits)
  show "es_END_TIME (eventData (insert_event l ty time args) ! count l) = 0"
    using lt z by (simp add: insert_event_def Let_def g(1) upd_nth split: option.splits)
qed

lemma insert_event_wf:
  assumes wf: "wf_list l"
  shows "wf_list (insert_event l ty time args)"
proof -
  let ?l' = "insert_event l ty time args"
  note p = insert_event_props [OF wf, of ty time args]
  note g = grow_props [OF wf]
  have sub: "set (drop (count l + 1) (eventData (grow l))) \<subseteq> set (drop (count l) (eventData (grow l)))"
    by (rule set_drop_subset_set_drop) simp
  have c1: "length (eventData ?l') = capacity ?l'"
    by (rule p(3))
  have "capacity ?l' = capacity (grow l)"
    using p(2) g(4) by simp
  then have c2: "count ?l' < capacity ?l'"
    using p(1) g(2) by simp
  have c3: "\<forall>e \<in> set (drop (count ?l') (eventData ?l')). es_NEXT_SIBLING e = 0 \<and> es_END_TIME e = 0"
    unfolding p(1) p(5) using g(6) sub by blast
  show ?thesis
    unfolding wf_list_def using c1 c2 c3 by blast
qed




section \<open>Properties of the rounding to doubles\<close>

text \<open>
  \<open>binade\<close> is the binary exponent: a nonzero \<open>x\<close> lies between \<open>2\<close> to the power
  \<open>binade x\<close> and the next power of two. Whole numbers below \<open>2 ^ 53\<close> in absolute value
  are doubles, so a query time of whole milliseconds is multiplied exactly.
\<close>

lemma binade_bounds:
  assumes "x \<noteq> 0"
  shows "2 powi binade x \<le> \<bar>x\<bar> \<and> \<bar>x\<bar> < 2 powi (binade x + 1)"
proof (cases "\<bar>x\<bar> \<ge> 1")
  case True
  define n where "n = nat \<lfloor>\<bar>x\<bar>\<rfloor>"
  have n: "0 < n" using True by (simp add: n_def)
  have b: "2 ^ (floorlog 2 n - 1) \<le> n \<and> n < 2 ^ floorlog 2 n"
    using floorlog_bounds [of n 2] n by simp
  have f: "0 < floorlog 2 n" using n by (simp add: floorlog_def)
  have e: "binade x = int (floorlog 2 n) - 1"
    using True by (simp add: binade_def n_def)
  have lo: "real (2 ^ (floorlog 2 n - 1)) \<le> \<bar>x\<bar>"
  proof -
    have "real (2 ^ (floorlog 2 n - 1)) \<le> real n" using b by (simp only: of_nat_le_iff)
    also have "\<dots> \<le> \<bar>x\<bar>" by (simp add: n_def)
    finally show ?thesis .
  qed
  have hi: "\<bar>x\<bar> < real (2 ^ floorlog 2 n)"
  proof -
    have "\<bar>x\<bar> < real n + 1" by (simp add: n_def)
    also have "\<dots> \<le> real (2 ^ floorlog 2 n)"
      using b by (metis Suc_leI of_nat_Suc of_nat_le_iff add.commute Suc_eq_plus1_left)
    finally show ?thesis .
  qed
  have p1: "(2::real) powi (int (floorlog 2 n) - 1) = 2 ^ (floorlog 2 n - 1)"
    using f by (simp add: power_int_def nat_diff_distrib')
  have p2: "(2::real) powi (int (floorlog 2 n) - 1 + 1) = 2 ^ floorlog 2 n"
    by (simp add: power_int_def)
  show ?thesis
    unfolding e p1 p2 using lo hi by simp
next
  case False
  define a where "a = \<bar>x\<bar>"
  have a: "0 < a" "a < 1" using False assms by (simp_all add: a_def)
  define m where "m = \<lceil>1 / a\<rceil>"
  have y: "1 < 1 / a" using a by simp
  have m2: "2 \<le> m" unfolding m_def using y by linarith
  define n where "n = nat (m - 1)"
  have n: "0 < n" using m2 by (simp add: n_def)
  have b: "2 ^ (floorlog 2 n - 1) \<le> n \<and> n < 2 ^ floorlog 2 n"
    using floorlog_bounds [of n 2] n by simp
  have f: "0 < floorlog 2 n" using n by (simp add: floorlog_def)
  define k where "k = floorlog 2 n"
  have e: "binade x = - int k"
    using False by (simp add: binade_def k_def n_def m_def a_def)
  have nm: "int n = m - 1" using m2 by (simp add: n_def)
  have "int n < int (2 ^ k)" using b unfolding k_def by (simp only: of_nat_less_iff)
  then have mk: "m \<le> 2 ^ k" using nm by simp
  have "int (2 ^ (k - 1)) \<le> int n" using b unfolding k_def by (simp only: of_nat_le_iff)
  then have km: "2 ^ (k - 1) < m" using nm by simp
  have "1 / a \<le> real_of_int m" unfolding m_def by simp
  also have "\<dots> \<le> 2 ^ k" using mk by (metis of_int_le_iff of_int_numeral of_int_power)
  finally have "1 / a \<le> 2 ^ k" .
  then have lo: "1 / 2 ^ k \<le> a"
    using a by (simp add: field_simps)
  have "real_of_int (2 ^ (k - 1)) < 1 / a"
    using km unfolding m_def by (simp only: less_ceiling_iff)
  then have "2 ^ (k - 1) < 1 / a" by simp
  then have hi: "a < 1 / 2 ^ (k - 1)"
    using a by (simp add: field_simps)
  have p1: "(2::real) powi (- int k) = 1 / 2 ^ k"
    by (simp add: power_int_def field_simps)
  have p2: "(2::real) powi (- int k + 1) = 1 / 2 ^ (k - 1)"
    using f unfolding k_def [symmetric]
    by (cases k) (simp_all add: power_int_def field_simps)
  show ?thesis
    unfolding e p1 p2 a_def [symmetric] using lo hi by simp
qed

lemma round_half_even_int: "round_half_even (of_int j) = j"
  by (simp add: round_half_even_def)

lemma double_of_int:
  assumes "\<bar>k\<bar> < 2 ^ 53"
  shows "double (of_int k) = of_int k"
proof (cases "k = 0")
  case True
  then show ?thesis by (simp add: double_def)
next
  case False
  define x :: real where "x = of_int k"
  have x0: "x \<noteq> 0" using False by (simp add: x_def)
  have x1: "1 \<le> \<bar>x\<bar>" using False by (simp add: x_def)
  have x2: "\<bar>x\<bar> < 2 ^ 53"
  proof -
    have "real_of_int \<bar>k\<bar> < real_of_int (2 ^ 53)" using assms by (simp only: of_int_less_iff)
    then show ?thesis by (simp add: x_def)
  qed
  note bb = binade_bounds [OF x0]
  have lo: "0 \<le> binade x"
  proof (rule ccontr)
    assume "\<not> 0 \<le> binade x"
    then have "binade x + 1 \<le> 0" by simp
    then have "(2::real) powi (binade x + 1) \<le> 2 powi 0"
      by (intro power_int_increasing) simp_all
    then show False using bb x1 by simp
  qed
  have hi: "binade x \<le> 52"
  proof (rule ccontr)
    assume "\<not> binade x \<le> 52"
    then have "53 \<le> binade x" by simp
    then have "(2::real) powi 53 \<le> 2 powi binade x"
      by (intro power_int_increasing) simp_all
    then show False using bb x2 by simp
  qed
  define d where "d = nat (52 - binade x)"
  have u: "(2::real) powi (max (binade x) (- 1022) - 52) = 1 / 2 ^ d"
  proof -
    have "max (binade x) (- 1022) - 52 = - int d" using lo hi by (simp add: d_def)
    then have "(2::real) powi (max (binade x) (- 1022) - 52) = 2 powi (- int d)" by simp
    also have "\<dots> = 1 / 2 ^ d" by (simp add: power_int_def field_simps)
    finally show ?thesis .
  qed
  have q: "x / (1 / 2 ^ d) = of_int (k * 2 ^ d)"
    by (simp add: x_def)
  have "double x = of_int (round_half_even (x / (1 / 2 ^ d))) * (1 / 2 ^ d)"
    using x0 by (simp add: double_def Let_def u)
  also have "\<dots> = of_int (k * 2 ^ d) * (1 / 2 ^ d)"
    unfolding q round_half_even_int ..
  also have "\<dots> = x" by (simp add: x_def)
  finally show ?thesis by (simp add: x_def)
qed

lemma double_whole_milliseconds:
  assumes "\<bar>k\<bar> * 1000 < 2 ^ 53"
  shows "double (double (of_int k) * 1000) = of_int (k * 1000)"
proof -
  have "\<bar>k\<bar> < 2 ^ 53" using assms by simp
  then have "double (of_int k) * 1000 = of_int (k * 1000)"
    by (simp add: double_of_int)
  moreover have "\<bar>k * 1000\<bar> < 2 ^ 53" using assms by (simp add: abs_mult)
  ultimately show ?thesis
    by (simp only: double_of_int)
qed

section \<open>Running the code on the example traces\<close>

text \<open>Evaluation rules for the typed-array accessors on explicit lists.\<close>

lemma rd_append1: "i < length xs \<Longrightarrow> rd (xs @ ys) i = rd xs i"
  by (simp add: rd_def nth_append)
lemma upd_append1: "i < length xs \<Longrightarrow> upd (xs @ ys) i f = upd xs i f @ ys"
  by (simp add: upd_def nth_append list_update_append)
lemma rd_Cons_0: "rd (x # xs) 0 = Some x" by (simp add: rd_def)
lemma rd_Cons_Suc: "rd (x # xs) (Suc i) = rd xs i" by (simp add: rd_def)
lemma rd_Nil: "rd [] i = None" by (simp add: rd_def)
lemma rd_Cons_numeral: "rd (x # xs) (numeral v) = rd xs (pred_numeral v)"
  by (simp add: numeral_eq_Suc rd_Cons_Suc)
lemma upd_Cons_0: "upd (x # xs) 0 f = f x # xs" by (simp add: upd_def)
lemma upd_Cons_Suc: "upd (x # xs) (Suc i) f = x # upd xs i f" by (simp add: upd_def)
lemma upd_Nil: "upd [] i f = []" by (simp add: upd_def)
lemma upd_Cons_numeral: "upd (x # xs) (numeral v) f = x # upd xs (pred_numeral v) f"
  by (simp add: numeral_eq_Suc upd_Cons_Suc)
lemma rd_replicate: "rd (replicate n x) i = (if i < n then Some x else None)"
  by (simp add: rd_def)
lemma upd_replicate_0: "0 < n \<Longrightarrow> upd (replicate n x) 0 f = f x # replicate (n - 1) x"
  by (cases n) (simp_all add: upd_def)
lemma rd_list_update: "rd (xs[i := x]) j = (if j < length xs then Some (if i = j then x else xs ! j) else None)"
  by (simp add: rd_def nth_list_update)
lemmas ev = rd_append1 upd_append1 rd_Cons_0 rd_Cons_Suc rd_Nil rd_Cons_numeral upd_Cons_0 upd_Cons_Suc upd_Nil upd_Cons_numeral rd_replicate upd_replicate_0 rd_list_update

lemmas run_defs = declared_def Let_def defineType_def property_def Object_prototype_def idOf_def flagsOf_def
  new_EventTypeTable_def new_EventList_def insert_event_def grow_def ev  zero_struct_def
  resortEvents_def sortIndex_def sortKey_def renumbered_def getTime_def getEndTime_def isScope_def
  rebuild_def rescopeEvents_def rescope_step_def rescope_head_def genericEnter_def
  genericTimeStamp_def otherEvent_def builtinIds_def init_rescope_def getByName_def getById_def
  u32_def toUint32_def num_add_def num_sub_def rdo_def updo_def argName_def resolveType_def setType_def pushScope_def
  leaveScope_def appendScopeData_def arg_get_def arg_merge_def

text \<open>
  Claim C3 says that \<^verbatim>\<open>getIndexOfEventNearTime(t)\<close> returns the largest index whose
  TIME is at most \<open>t\<close>, and 0 when there is none; the function's own comment says that
  the event at the given time is returned and, if there is none, the one before it.
  The code returns the index before the first record whose TIME is not below \<open>t\<close>, and
  never looks at the last record. On the rebuilt list with times 0, 1000 and 2000
  microseconds it answers 0 for \<open>t\<close> = 1 ms, though record 1 lies exactly at 1000, and
  1 for \<open>t\<close> = 100 ms, though record 2 lies before that time.
\<close>

theorem near_time_off_by_one:
  "(case rebuild 4 near_time_example of
      Inl err \<Rightarrow> False
    | Inr l \<Rightarrow>
        map (\<lambda>e. unat (es_TIME e)) (take (count l) (eventData l)) = [0, 1000, 2000]
        \<and> getIndexOfEventNearTime l 1 = 0
        \<and> getIndexOfEventNearTime l 100 = 1)"
  by (simp add: near_time_example_def run_defs getIndexOfEventNearTime_def double_def binade_def
      round_half_even_def compute_floorlog)

text \<open>
  The product with 1000 is the rounded one. The double nearest to 2.007 times 1000 is
  not 2007 but the next double above it, so the search on \<open>decimal_time_example\<close> sees
  the record at 2007 as lying before the query time.
\<close>

lemma double_product_rounded: "double (double 2.007 * 1000) = 2007 + 1 / 2 ^ 42"
  by (simp add: double_def binade_def round_half_even_def compute_floorlog)

lemma near_time_rounded_product:
  "(case rebuild 4 decimal_time_example of
      Inl err \<Rightarrow> False
    | Inr l \<Rightarrow> getIndexOfEventNearTime l 2.007 = 1)"
  by (simp add: decimal_time_example_def run_defs getIndexOfEventNearTime_def double_def binade_def
      round_half_even_def compute_floorlog)

text \<open>
  What a leave does to the accumulators of the new top, in general. The scope popped
  from level \<open>k + 2\<close> has its child and system time in slot \<open>k + 1\<close>; the new top, at
  level \<open>k + 1\<close>, has its own in slot \<open>k\<close> and its type in \<open>typeStack (k + 1)\<close>. The
  duration goes into the child time of the new top. The system time of the popped
  scope is rolled up, and the duration with it exactly when the type of the new top
  carries the flag; the type of the popped scope, in \<open>typeStack (k + 2)\<close>, is not read.
\<close>

lemma es_TIME_upd:
  assumes "\<And>e. es_TIME (f e) = es_TIME e"
  shows "es_TIME (upd xs i f ! j) = es_TIME (xs ! j)"
  using assms by (cases "i = j") (simp_all add: upd_def)

lemma leaveScope_rollup:
  assumes top: "stackTop st = Suc (Suc k)" and k: "Suc k < 256"
    and sizes: "length (childTimeStack st) = 256" "length (systemTimeStack st) = 256"
    and p: "unat p < length (eventData (lst st))"
    and ty: "typeStack st (Suc k) = Some ty"
  shows "\<exists>st'. leaveScope S st n (Some p) nx t = Inr st'
           \<and> stackTop st' = Suc k
           \<and> childTimeStack st' ! k
               = childTimeStack st ! k + (t - es_TIME (eventData (lst st) ! unat p))
           \<and> systemTimeStack st' ! k
               = systemTimeStack st ! k + systemTimeStack st ! Suc k
                 + (if flagsOf ty AND S \<noteq> 0 then t - es_TIME (eventData (lst st) ! unat p) else 0)"
  using top k sizes ty p
  by (simp add: leaveScope_def Let_def rdo_def updo_def rd_def num_sub_def num_add_def
      toUint32_def upd_nth es_TIME_upd)

text \<open>
  Claim C2 says that a leaving scope's duration is rolled up into the system time of
  the enclosing scope when the leaving scope's own type carries SYSTEM_TIME, so that
  \<open>A\<close> containing a flagged \<open>B\<close> of 200 microseconds ends with SYSTEM_TIME 200. The code
  adds the duration to the child time of the new top, as claimed, but reads the flag
  from \<^verbatim>\<open>typeStack[stackTop]\<close> after the decrement, which is the type of the new top.
  On \<open>system_time_example\<close> the SYSTEM_TIME cell of \<open>A\<close> ends at 0; on
  \<open>flagged_parent_example\<close>, where only \<open>A\<close> is flagged, it ends at 200.
\<close>

theorem system_time_not_rolled_up:
  "(case rebuild 4 flagged_parent_example of
      Inl err \<Rightarrow> False
    | Inr l \<Rightarrow> es_SYSTEM_TIME (eventData l ! 0) = 200)
   \<and>
   (case rebuild 4 system_time_example of
      Inl err \<Rightarrow> False
    | Inr l \<Rightarrow>
        (let a = eventData l ! 0; b = eventData l ! 1
         in es_PARENT b = es_ID a \<and> es_DEPTH b = 1
            \<and> unat (es_END_TIME b) - unat (es_TIME b) = 200
            \<and> es_TIME a = 0 \<and> es_END_TIME a = 500 \<and> es_CHILD_TIME a = 200
            \<and> es_SYSTEM_TIME a = 0))"
  by (simp add: system_time_example_def flagged_parent_example_def run_defs)

text \<open>
  Claim C4 says that a \<^verbatim>\<open>wtf.scope#appendData\<close> event met while no scope is open
  changes no record. With an empty stack the code passes \<^verbatim>\<open>stack[0]\<close>, which is 0, as
  the scope id, so the arguments are given to record 0. On \<open>append_data_example\<close>
  record 0, an instance event inserted without arguments, has its ARGUMENTS cell at 0
  after the resort and at 1, the id of the appended data, after the rebuild.
\<close>

theorem append_data_without_scope_hits_record_0:
  "es_ARGUMENTS (eventData (resortEvents append_data_example) ! 0) = 0
   \<and> (case rebuild 4 append_data_example of
        Inl err \<Rightarrow> False
      | Inr l \<Rightarrow> es_ARGUMENTS (eventData l ! 0) = 1 \<and> es_ARGUMENTS (eventData l ! 1) = 1)"
  by (simp add: append_data_example_def run_defs)

text \<open>
  Claim C6 says that a second rebuild leaves the buffer as the first one made it. The
  first rebuild of \<open>time_stamp_example\<close> rewrites the TYPE cell of the time stamp to the
  declared scope type of the same name; the second rebuild then opens a scope at that
  record, and the DEPTH cell of the following record changes from 0 to 1.
\<close>

theorem rebuild_twice_differs:
  "(case rebuild 4 time_stamp_example of
      Inl err \<Rightarrow> False
    | Inr l1 \<Rightarrow>
        (case rebuild 4 l1 of
           Inl err \<Rightarrow> False
         | Inr l2 \<Rightarrow>
             es_DEPTH (eventData l1 ! 1) = 0 \<and> es_DEPTH (eventData l2 ! 1) = 1
             \<and> eventData l1 \<noteq> eventData l2))"
  by (simp add: time_stamp_example_def run_defs)

text \<open>
  Claim C5 says that the buckets of a scope entry always add up to its count and that
  every bucket index lies in 0..999. The code clamps the index from above only. On
  \<open>unclosed_scope_example\<close>, rebuilt, the first record is a complete scope of type \<open>A\<close>
  and the third an unclosed one of the same type, with END_TIME 0 and hence a user
  duration of \<open>-1\<close> ms. Appending the two to the entry of \<open>A\<close>, as the statistics do,
  raises the count to 2, while the second append increments no bucket: the buckets add
  up to 1.
\<close>

theorem appendEvent_negative_duration:
  "(case rebuild 4 unclosed_scope_example of
      Inl err \<Rightarrow> False
    | Inr l \<Rightarrow>
        (let r0 = eventData l ! 0; r2 = eventData l ! 2;
             s = appendEvent (appendEvent (new_ScopeEventDataEntry (declared ''A'' SCOPE 0)) r0) r2
         in isScope r0 \<and> es_TYPE r2 = es_TYPE r0
            \<and> es_TIME r2 = 1000 \<and> es_END_TIME r2 = 0 \<and> es_SYSTEM_TIME r2 = 0
            \<and> getUserDuration r2 = - 1 \<and> bucketIndex r2 = - 1
            \<and> ScopeEventDataEntry.count s = 2
            \<and> sum_list (map unat (buckets s)) = 1))"
  by (simp add: unclosed_scope_example_def run_defs appendEvent_def new_ScopeEventDataEntry_def
      bucketIndex_def bucket_incr_def getUserDuration_def getTotalDuration_def Math_round_def
      toInt32_def map_update sum_list_update)

text \<open>
  The name of an inherited member reaches the table from a trace: a generic scope enter
  carries the name of its scope as an argument. On \<open>inherited_name_example\<close> the
  rebuild defines no type for the scope, leaves the counter of the table where it was
  and stores 0, the reserved id, in the TYPE cell of the record; a second rebuild then
  finds no type for that record and raises.
\<close>

lemma generic_scope_with_inherited_name:
  "(case rebuild 4 inherited_name_example of
      Inl err \<Rightarrow> False
    | Inr l \<Rightarrow>
        es_TYPE (eventData l ! 0) = 0
        \<and> eventTypeTable l = eventTypeTable inherited_name_example
        \<and> nextTypeId (eventTypeTable l) = 2
        \<and> getByName (eventTypeTable l) ''constructor'' = Some (PrototypeMember ''constructor'')
        \<and> rebuild 4 l = Inl TypeError)"
  by (simp add: inherited_name_example_def run_defs)

section \<open>Properties of the resort and of the rebuild\<close>

lemma insert_all_props:
  assumes "wf_list l"
  shows "wf_list (insert_all l es)
         \<and> count (insert_all l es) = count l + length es
         \<and> take (count l) (eventData (insert_all l es)) = take (count l) (eventData l)
         \<and> (\<forall>k < length es.
               es_ID (eventData (insert_all l es) ! (count l + k)) = of_nat (count l + k)
               \<and> es_TIME (eventData (insert_all l es) ! (count l + k)) = word_of_int (fst (snd (es ! k))))"
  using assms
proof (induction es arbitrary: l)
  case Nil
  then show ?case by simp
next
  case (Cons x es)
  obtain ty time args where x: "x = (ty, time, args)"
    by (cases x)
  let ?l1 = "insert_event l ty time args"
  let ?r = "insert_all ?l1 es"
  note p = insert_event_props [OF Cons.prems, of ty time args]
  have wf1: "wf_list ?l1"
    by (rule insert_event_wf [OF Cons.prems])
  note ih = Cons.IH [OF wf1]
  have c1: "count ?l1 = count l + 1"
    by (rule p(1))
  have tk: "take (count l + 1) (eventData ?r) = take (count l + 1) (eventData ?l1)"
    using ih c1 by simp
  have tk0: "take (count l) (eventData ?r) = take (count l) (eventData ?l1)"
  proof -
    have "take (count l) (take (count l + 1) (eventData ?r))
          = take (count l) (take (count l + 1) (eventData ?l1))"
      using tk by simp
    then show ?thesis by (simp add: min_def)
  qed
  have at: "eventData ?r ! count l = eventData ?l1 ! count l"
  proof -
    have "take (count l + 1) (eventData ?r) ! count l = take (count l + 1) (eventData ?l1) ! count l"
      using tk by simp
    then show ?thesis by simp
  qed
  have new: "\<forall>k < length (x # es).
               es_ID (eventData ?r ! (count l + k)) = of_nat (count l + k)
               \<and> es_TIME (eventData ?r ! (count l + k)) = word_of_int (fst (snd ((x # es) ! k)))"
  proof (intro allI impI)
    fix k assume k: "k < length (x # es)"
    show "es_ID (eventData ?r ! (count l + k)) = of_nat (count l + k)
          \<and> es_TIME (eventData ?r ! (count l + k)) = word_of_int (fst (snd ((x # es) ! k)))"
    proof (cases k)
      case 0
      then show ?thesis using at p(6,8) x by simp
    next
      case (Suc k')
      then have "k' < length es" using k by simp
      then have "es_ID (eventData ?r ! (count ?l1 + k')) = of_nat (count ?l1 + k')
          \<and> es_TIME (eventData ?r ! (count ?l1 + k')) = word_of_int (fst (snd (es ! k')))"
        using ih by blast
      then show ?thesis using Suc c1 by simp
    qed
  qed
  have "wf_list ?r" "count ?r = count l + length (x # es)"
    using ih c1 by simp_all
  moreover have "take (count l) (eventData ?r) = take (count l) (eventData l)"
    using tk0 p(4) by simp
  ultimately show ?case
    using new unfolding x by simp
qed

lemma length_sortIndex: "length (sortIndex l) = count l"
  by (simp add: sortIndex_def)

lemma set_sortIndex: "set (sortIndex l) = {0..<count l}"
  by (simp add: sortIndex_def)

lemma distinct_sortIndex: "distinct (sortIndex l)"
  by (simp add: sortIndex_def)

lemma sorted_sortIndex: "sorted (map (sortKey (eventData l)) (sortIndex l))"
  by (simp add: sortIndex_def)

lemma sortIndex_nth_less: "i < count l \<Longrightarrow> sortIndex l ! i < count l"
  using set_sortIndex [of l] length_sortIndex [of l] nth_mem [of i "sortIndex l"] by auto

lemma length_renumbered: "length (renumbered ed ix) = length ix"
  by (simp add: renumbered_def)

lemma renumbered_nth:
  "i < length ix \<Longrightarrow> ix ! i < length ed \<Longrightarrow>
   renumbered ed ix ! i = (ed ! (ix ! i))\<lparr>es_ID := of_nat i\<rparr>"
  by (simp add: renumbered_def nth_enumerate_eq rd_def)

lemma resort_fields:
  "count (resortEvents l) = count l"
  "capacity (resortEvents l) = capacity l"
  "eventTypeTable (resortEvents l) = eventTypeTable l"
  "argumentData (resortEvents l) = argumentData l"
  "eventData (resortEvents l)
     = take (length (eventData l))
         (renumbered (eventData l) (sortIndex l) @ replicate (length (eventData l)) zero_struct)"
  by (simp_all add: resortEvents_def Let_def split: option.splits)

lemma resort_eventData:
  assumes "count l \<le> length (eventData l)"
  shows "eventData (resortEvents l)
         = renumbered (eventData l) (sortIndex l)
             @ replicate (length (eventData l) - count l) zero_struct"
  using assms by (simp add: resort_fields(5) length_renumbered length_sortIndex)

lemma resort_nth:
  assumes "count l \<le> length (eventData l)" and "i < count l"
  shows "eventData (resortEvents l) ! i = (eventData l ! (sortIndex l ! i))\<lparr>es_ID := of_nat i\<rparr>"
proof -
  have "sortIndex l ! i < length (eventData l)"
    using sortIndex_nth_less [OF assms(2)] assms(1) by simp
  then show ?thesis
    using assms
    by (simp add: resort_eventData nth_append length_renumbered length_sortIndex renumbered_nth)
qed

lemma sortIndex_order:
  assumes ids: "\<forall>k < count l. unat (es_ID (eventData l ! k)) = k"
    and ij: "i < j" "j < count l"
  shows "unat (es_TIME (eventData l ! (sortIndex l ! i))) < unat (es_TIME (eventData l ! (sortIndex l ! j)))
         \<or> (unat (es_TIME (eventData l ! (sortIndex l ! i))) = unat (es_TIME (eventData l ! (sortIndex l ! j)))
            \<and> sortIndex l ! i < sortIndex l ! j)"
proof -
  let ?s = "sortIndex l"
  have i: "i < count l" using ij by simp
  have le: "sortKey (eventData l) (?s ! i) \<le> sortKey (eventData l) (?s ! j)"
    using sorted_sortIndex [of l] ij length_sortIndex [of l]
    by (simp add: sorted_iff_nth_mono)
  have ne: "?s ! i \<noteq> ?s ! j"
    using distinct_sortIndex [of l] ij i length_sortIndex [of l]
    by (simp add: nth_eq_iff_index_eq)
  have ki: "sortKey (eventData l) (?s ! i) = (unat (es_TIME (eventData l ! (?s ! i))), ?s ! i)"
    using ids sortIndex_nth_less [OF i] by (simp add: sortKey_def)
  have kj: "sortKey (eventData l) (?s ! j) = (unat (es_TIME (eventData l ! (?s ! j))), ?s ! j)"
    using ids sortIndex_nth_less [OF ij(2)] by (simp add: sortKey_def)
  show ?thesis
    using le ne unfolding ki kj by (auto simp: less_eq_prod_simp)
qed

lemma map_upd:
  assumes "\<And>e. g (f e) = g e"
  shows "map g (upd xs i f) = map g xs"
proof (cases "i < length xs")
  case True
  have "map g (upd xs i f) = (map g xs)[i := g (f (xs ! i))]"
    using True by (simp add: upd_def map_update)
  also have "\<dots> = (map g xs)[i := map g xs ! i]"
    using True assms by simp
  also have "\<dots> = map g xs"
    by (rule list_update_id)
  finally show ?thesis .
next
  case False
  then show ?thesis by (simp add: upd_def)
qed

lemma map_updo:
  assumes "\<And>e. g (f e) = g e"
  shows "map g (updo xs i f) = map g xs"
  using assms by (cases i) (simp_all add: updo_def map_upd)

lemma same_keys_refl: "same_keys l l"
  by (simp add: same_keys_def)

lemma same_keys_trans: "same_keys a b \<Longrightarrow> same_keys b c \<Longrightarrow> same_keys a c"
  by (simp add: same_keys_def)

lemma same_keys_eventData:
  assumes "map es_ID ed = map es_ID (eventData l)" "map es_TIME ed = map es_TIME (eventData l)"
  shows "same_keys l (l\<lparr>eventData := ed\<rparr>)"
  using assms by (simp add: same_keys_def)

lemma resolveType_same_keys:
  assumes "resolveType create l a = Inr (ty, l')"
  shows "same_keys l l'"
  using assms
  by (auto simp: resolveType_def same_keys_def Let_def
      split: option.splits prod.splits)

lemma setType_same_keys: "same_keys l (setType l n ty)"
  unfolding setType_def by (rule same_keys_eventData) (simp_all add: map_upd)

lemma appendScopeData_same_keys:
  assumes "appendScopeData l p a = Inr l'"
  shows "same_keys l l'"
  using assms
  by (auto simp: appendScopeData_def same_keys_def map_updo
      split: option.splits if_splits)

lemma pushScope_lst [simp]: "lst (pushScope st i ty) = lst st"
  by (simp add: pushScope_def Let_def)

lemma leaveScope_same_keys:
  assumes "leaveScope S st n p nx t = Inr st'"
  shows "same_keys (lst st) (lst st')"
  using assms
  by (auto simp: leaveScope_def same_keys_def Let_def map_updo map_upd
      split: option.splits if_splits)

lemma rescope_head_same_keys:
  assumes "rescope_head st n = (st2, p, nx)"
  shows "same_keys (lst st) (lst st2)"
  using assms
  by (auto simp: rescope_head_def Let_def same_keys_def map_upd)

lemma genericEnter_same_keys:
  assumes "genericEnter st n e = Inr st'"
  shows "same_keys (lst st) (lst st')"
  using assms resolveType_same_keys setType_same_keys same_keys_trans
  by (fastforce simp: genericEnter_def split: sum.splits prod.splits)

lemma genericTimeStamp_same_keys:
  assumes "genericTimeStamp st n e = Inr st'"
  shows "same_keys (lst st) (lst st')"
  using assms resolveType_same_keys setType_same_keys same_keys_trans
  by (fastforce simp: genericTimeStamp_def split: sum.splits prod.splits)

lemma otherEvent_same_keys:
  assumes "otherEvent st e = Inr st'"
  shows "same_keys (lst st) (lst st')"
  using assms
  by (auto simp: otherEvent_def same_keys_refl split: option.splits if_splits)

lemma rescope_step_cases:
  assumes "rescope_step S ids st n = Inr st'"
  obtains st2 p nx e where "rescope_head st n = (st2, p, nx)"
    and "rd (eventData (lst st2)) n = Some e"
    and "genericEnter st2 n e = Inr st'
         \<or> leaveScope S st2 n p nx (es_TIME e) = Inr st'
         \<or> (\<exists>l3. appendScopeData (lst st2) p (es_ARGUMENTS e) = Inr l3 \<and> st' = st2\<lparr>lst := l3\<rparr>)
         \<or> genericTimeStamp st2 n e = Inr st'
         \<or> otherEvent st2 e = Inr st'"
proof -
  obtain st2 p nx where h: "rescope_head st n = (st2, p, nx)"
    by (cases "rescope_head st n")
  obtain e where e: "rd (eventData (lst st2)) n = Some e"
    using assms h by (auto simp: rescope_step_def split: option.splits)
  have "genericEnter st2 n e = Inr st'
         \<or> leaveScope S st2 n p nx (es_TIME e) = Inr st'
         \<or> (\<exists>l3. appendScopeData (lst st2) p (es_ARGUMENTS e) = Inr l3 \<and> st' = st2\<lparr>lst := l3\<rparr>)
         \<or> genericTimeStamp st2 n e = Inr st'
         \<or> otherEvent st2 e = Inr st'"
    using assms h e
    by (auto simp: rescope_step_def Let_def split: if_splits sum.splits)
  then show ?thesis
    using that h e by blast
qed

lemma rescope_step_same_keys:
  assumes "rescope_step S ids st n = Inr st'"
  shows "same_keys (lst st) (lst st')"
proof -
  from assms obtain st2 p nx e where h: "rescope_head st n = (st2, p, nx)"
    and c: "genericEnter st2 n e = Inr st'
         \<or> leaveScope S st2 n p nx (es_TIME e) = Inr st'
         \<or> (\<exists>l3. appendScopeData (lst st2) p (es_ARGUMENTS e) = Inr l3 \<and> st' = st2\<lparr>lst := l3\<rparr>)
         \<or> genericTimeStamp st2 n e = Inr st'
         \<or> otherEvent st2 e = Inr st'"
    by (rule rescope_step_cases)
  have "same_keys (lst st2) (lst st')"
    using c genericEnter_same_keys leaveScope_same_keys appendScopeData_same_keys
      genericTimeStamp_same_keys otherEvent_same_keys
    by fastforce
  then show ?thesis
    using rescope_head_same_keys [OF h] same_keys_trans by blast
qed

lemma rescope_loop_same_keys:
  assumes "rescope_loop S ids ns st = Inr st'"
  shows "same_keys (lst st) (lst st')"
  using assms
proof (induction ns arbitrary: st)
  case Nil
  then show ?case by (simp add: same_keys_refl)
next
  case (Cons n ns)
  then obtain st1 where 1: "rescope_step S ids st n = Inr st1"
    and 2: "rescope_loop S ids ns st1 = Inr st'"
    by (auto split: sum.splits)
  show ?case
    using rescope_step_same_keys [OF 1] Cons.IH [OF 2] by (rule same_keys_trans)
qed

lemma rescopeEvents_same_keys:
  assumes "rescopeEvents S l = Inr l'"
  shows "same_keys l l'"
proof -
  obtain st where st: "rescope_loop S (builtinIds (eventTypeTable l)) [0..<count l] (init_rescope l) = Inr st"
    and l': "l' = (lst st)\<lparr>maximumScopeDepth := stackMax st\<rparr>"
    using assms by (auto simp: rescopeEvents_def split: sum.splits)
  have "same_keys l (lst st)"
    using rescope_loop_same_keys [OF st] by (simp add: init_rescope_def)
  then show ?thesis
    unfolding l' by (simp add: same_keys_def)
qed

lemma same_keys_nth:
  assumes "same_keys l l'" and "i < length (eventData l)"
  shows "es_ID (eventData l' ! i) = es_ID (eventData l ! i)"
    and "es_TIME (eventData l' ! i) = es_TIME (eventData l ! i)"
proof -
  have len: "length (eventData l') = length (eventData l)"
    using assms(1) unfolding same_keys_def by (metis length_map)
  have "map es_ID (eventData l') ! i = map es_ID (eventData l) ! i"
    "map es_TIME (eventData l') ! i = map es_TIME (eventData l) ! i"
    using assms(1) by (simp_all add: same_keys_def)
  then show "es_ID (eventData l' ! i) = es_ID (eventData l ! i)"
    and "es_TIME (eventData l' ! i) = es_TIME (eventData l ! i)"
    using assms(2) len by simp_all
qed

lemma length_resort: "length (eventData (resortEvents l)) = length (eventData l)"
  by (simp add: resort_fields(5) length_renumbered)

lemma drop_upd: "i < c \<Longrightarrow> drop c (upd xs i f) = drop c xs"
  by (simp add: upd_def)

lemma drop_updo: "(\<And>w. p = Some w \<Longrightarrow> unat w < c) \<Longrightarrow> drop c (updo xs p f) = drop c xs"
  by (cases p) (simp_all add: updo_def drop_upd)

lemma rd_in_set: "rd xs i = Some w \<Longrightarrow> w \<in> set xs"
  by (auto simp: rd_def split: if_splits)

lemma resolveType_eventData:
  assumes "resolveType create l a = Inr (ty, l')"
  shows "eventData l' = eventData l" "count l' = count l"
  using assms
  by (auto simp: resolveType_def Let_def split: option.splits prod.splits)

lemma appendScopeData_tail:
  assumes "appendScopeData l p a = Inr l'" and "\<And>w. p = Some w \<Longrightarrow> unat w < c"
  shows "drop c (eventData l') = drop c (eventData l)"
  using assms
  by (auto simp: appendScopeData_def drop_updo split: option.splits if_splits)

lemma leaveScope_tail:
  assumes "leaveScope S st n p nx t = Inr st'" and "\<And>w. p = Some w \<Longrightarrow> unat w < c" and "n < c"
  shows "drop c (eventData (lst st')) = drop c (eventData (lst st))"
  using assms
  by (auto simp: leaveScope_def Let_def drop_updo drop_upd split: option.splits if_splits)

lemma leaveScope_stack:
  assumes "leaveScope S st n p nx t = Inr st'"
  shows "stack st' = stack st"
  using assms
  by (auto simp: leaveScope_def Let_def split: option.splits if_splits)

lemma pushScope_stack_ok:
  assumes "\<forall>v \<in> set (stack st). unat v < c" and "unat i < c"
  shows "\<forall>v \<in> set (stack (pushScope st i ty)). unat v < c"
proof -
  have "set ((stack st)[stackTop st + 1 := i]) \<subseteq> insert i (set (stack st))"
    by (rule set_update_subset_insert)
  then show ?thesis
    using assms by (auto simp: pushScope_def Let_def)
qed

lemma rd_upd_same: "rd (upd xs n f) n = (if n < length xs then Some (f (xs ! n)) else None)"
  by (simp add: rd_def upd_def)

lemma rescope_head_props:
  assumes h: "rescope_head st n = (st2, p, nx)"
  shows "stack st2 = stack st"
    and "p = rd (stack st) (stackTop st)"
    and "n < c \<Longrightarrow> drop c (eventData (lst st2)) = drop c (eventData (lst st))"
    and "rd (eventData (lst st2)) n = Some e \<Longrightarrow> es_ID e = es_ID (eventData (lst st) ! n)"
  using h
  by (auto simp: rescope_head_def Let_def drop_upd rd_upd_same upd_nth split: if_splits)

lemma genericEnter_inv:
  assumes "genericEnter st n e = Inr st'" and "\<forall>v \<in> set (stack st). unat v < c"
    and "unat (es_ID e) < c" and "n < c"
  shows "(\<forall>v \<in> set (stack st'). unat v < c)
         \<and> drop c (eventData (lst st')) = drop c (eventData (lst st))"
proof -
  obtain ty l3 where r: "resolveType createScope (lst st) (es_ARGUMENTS e) = Inr (ty, l3)"
    and st': "st' = pushScope (st\<lparr>lst := setType l3 n ty\<rparr>) (es_ID e) ty"
    using assms(1) by (auto simp: genericEnter_def split: sum.splits prod.splits)
  have 1: "\<forall>v \<in> set (stack st'). unat v < c"
    unfolding st' by (rule pushScope_stack_ok) (simp_all add: assms)
  have 2: "drop c (eventData (lst st')) = drop c (eventData (lst st))"
    unfolding st' using resolveType_eventData(1) [OF r] assms(4)
    by (simp add: setType_def drop_upd)
  show ?thesis using 1 2 by blast
qed

lemma genericTimeStamp_inv:
  assumes "genericTimeStamp st n e = Inr st'" and "n < c"
  shows "stack st' = stack st
         \<and> drop c (eventData (lst st')) = drop c (eventData (lst st))"
proof -
  obtain ty l3 where r: "resolveType createInstance (lst st) (es_ARGUMENTS e) = Inr (ty, l3)"
    and st': "st' = st\<lparr>lst := setType l3 n ty\<rparr>"
    using assms(1) by (auto simp: genericTimeStamp_def split: sum.splits prod.splits)
  show ?thesis
    unfolding st' using resolveType_eventData(1) [OF r] assms(2)
    by (simp add: setType_def drop_upd)
qed

lemma otherEvent_inv:
  assumes "otherEvent st e = Inr st'" and "\<forall>v \<in> set (stack st). unat v < c"
    and "unat (es_ID e) < c"
  shows "(\<forall>v \<in> set (stack st'). unat v < c)
         \<and> drop c (eventData (lst st')) = drop c (eventData (lst st))"
proof -
  obtain ty where g: "getById (eventTypeTable (lst st)) (unat (es_TYPE e)) = Some ty"
    using assms(1) by (auto simp: otherEvent_def split: option.splits)
  have st': "st' = (if eventClass ty = SCOPE then pushScope st (es_ID e) (TypeObject ty) else st)"
    using assms(1) g by (auto simp: otherEvent_def split: if_splits)
  show ?thesis
  proof (cases "eventClass ty = SCOPE")
    case True
    then have s: "st' = pushScope st (es_ID e) (TypeObject ty)"
      using st' by simp
    have "\<forall>v \<in> set (stack st'). unat v < c"
      unfolding s by (rule pushScope_stack_ok [OF assms(2,3)])
    then show ?thesis
      unfolding s by simp
  next
    case False
    then show ?thesis
      using st' assms(2) by simp
  qed
qed

lemma rescope_step_inv:
  assumes step: "rescope_step S ids st n = Inr st'"
    and ok: "stack_ok st" and ids: "ids_ok (lst st)" and n: "n < count (lst st)"
  shows "stack_ok st' \<and> same_tail (lst st) (lst st')"
proof -
  define c where "c = count (lst st)"
  from step obtain st2 p nx e where h: "rescope_head st n = (st2, p, nx)"
    and e: "rd (eventData (lst st2)) n = Some e"
    and br: "genericEnter st2 n e = Inr st'
         \<or> leaveScope S st2 n p nx (es_TIME e) = Inr st'
         \<or> (\<exists>l3. appendScopeData (lst st2) p (es_ARGUMENTS e) = Inr l3 \<and> st' = st2\<lparr>lst := l3\<rparr>)
         \<or> genericTimeStamp st2 n e = Inr st'
         \<or> otherEvent st2 e = Inr st'"
    by (rule rescope_step_cases)
  note hp = rescope_head_props [OF h]
  have nc: "n < c"
    using n by (simp add: c_def)
  have st: "\<forall>v \<in> set (stack st2). unat v < c"
    using ok unfolding stack_ok_def c_def hp(1) by blast
  have p: "unat w < c" if "p = Some w" for w
  proof -
    have "rd (stack st2) (stackTop st) = Some w"
      using that hp(1,2) by simp
    then have "w \<in> set (stack st2)"
      by (rule rd_in_set)
    then show ?thesis
      using st by blast
  qed
  have "n < 2 ^ 32"
    using ids n unfolding ids_ok_def by simp
  then have "unat (of_nat n :: 32 word) = n"
    by (simp add: unat_of_nat take_bit_eq_mod)
  then have idn: "unat (es_ID e) < c"
    using ids n hp(4) [OF e] unfolding ids_ok_def c_def by simp
  have t2: "drop c (eventData (lst st2)) = drop c (eventData (lst st))"
    by (rule hp(3) [OF nc])
  have main: "(\<forall>v \<in> set (stack st'). unat v < c)
        \<and> drop c (eventData (lst st')) = drop c (eventData (lst st2))"
  proof -
    consider (enter) "genericEnter st2 n e = Inr st'"
      | (leave) "leaveScope S st2 n p nx (es_TIME e) = Inr st'"
      | (append) l3 where "appendScopeData (lst st2) p (es_ARGUMENTS e) = Inr l3"
          "st' = st2\<lparr>lst := l3\<rparr>"
      | (stamp) "genericTimeStamp st2 n e = Inr st'"
      | (other) "otherEvent st2 e = Inr st'"
      using br by blast
    then show ?thesis
    proof cases
      case enter
      show ?thesis by (rule genericEnter_inv [OF enter st idn nc])
    next
      case leave
      have "stack st' = stack st2" by (rule leaveScope_stack [OF leave])
      moreover have "drop c (eventData (lst st')) = drop c (eventData (lst st2))"
        by (rule leaveScope_tail [OF leave p nc])
      ultimately show ?thesis using st by simp
    next
      case append
      have "drop c (eventData l3) = drop c (eventData (lst st2))"
        by (rule appendScopeData_tail [OF append(1) p])
      then show ?thesis unfolding append(2) using st by simp
    next
      case stamp
      show ?thesis using genericTimeStamp_inv [OF stamp nc] st by simp
    next
      case other
      show ?thesis using otherEvent_inv [OF other st idn] by simp
    qed
  qed
  have c': "count (lst st') = c"
    using rescope_step_same_keys [OF step] by (simp add: same_keys_def c_def)
  show ?thesis
    unfolding stack_ok_def same_tail_def c' c_def [symmetric] using main t2 by simp
qed

lemma same_keys_length:
  assumes "same_keys l l'"
  shows "length (eventData l') = length (eventData l)"
  using assms unfolding same_keys_def by (metis length_map)

lemma same_keys_ids_ok:
  assumes sk: "same_keys l l'" and ids: "ids_ok l"
  shows "ids_ok l'"
proof -
  have c: "count l' = count l"
    using sk by (simp add: same_keys_def)
  have "es_ID (eventData l' ! k) = of_nat k" if "k < count l" for k
  proof -
    have "k < length (eventData l)"
      using that ids by (simp add: ids_ok_def)
    then have "es_ID (eventData l' ! k) = es_ID (eventData l ! k)"
      by (rule same_keys_nth(1) [OF sk])
    then show ?thesis
      using that ids by (simp add: ids_ok_def)
  qed
  then show ?thesis
    using ids c same_keys_length [OF sk] by (simp add: ids_ok_def)
qed

lemma same_tail_trans:
  assumes "same_tail a b" and "same_tail b c" and "count b = count a"
  shows "same_tail a c"
  using assms by (simp add: same_tail_def)

lemma rescope_loop_inv:
  assumes "rescope_loop S ids ns st = Inr st'"
    and "stack_ok st" and "ids_ok (lst st)" and "\<forall>n \<in> set ns. n < count (lst st)"
  shows "same_tail (lst st) (lst st')"
  using assms
proof (induction ns arbitrary: st)
  case Nil
  then show ?case by (simp add: same_tail_def)
next
  case (Cons n ns)
  then obtain st1 where 1: "rescope_step S ids st n = Inr st1"
    and 2: "rescope_loop S ids ns st1 = Inr st'"
    by (auto split: sum.splits)
  have n: "n < count (lst st)"
    using Cons.prems(4) by simp
  have sk: "same_keys (lst st) (lst st1)"
    by (rule rescope_step_same_keys [OF 1])
  then have c: "count (lst st1) = count (lst st)"
    by (simp add: same_keys_def)
  have inv: "stack_ok st1 \<and> same_tail (lst st) (lst st1)"
    by (rule rescope_step_inv [OF 1 Cons.prems(2,3) n])
  have ids1: "ids_ok (lst st1)"
    by (rule same_keys_ids_ok [OF sk Cons.prems(3)])
  have "\<forall>n \<in> set ns. n < count (lst st1)"
    using Cons.prems(4) c by simp
  then have "same_tail (lst st1) (lst st')"
    using Cons.IH [OF 2] inv ids1 by blast
  then show ?case
    using inv c same_tail_trans by blast
qed

lemma rescopeEvents_same_tail:
  assumes r: "rescopeEvents S l = Inr l'" and ids: "ids_ok l"
  shows "same_tail l l'"
proof -
  obtain st where st: "rescope_loop S (builtinIds (eventTypeTable l)) [0..<count l] (init_rescope l) = Inr st"
    and l': "l' = (lst st)\<lparr>maximumScopeDepth := stackMax st\<rparr>"
    using r by (auto simp: rescopeEvents_def split: sum.splits)
  have "same_tail (lst (init_rescope l)) (lst st)"
  proof (cases "count l = 0")
    case True
    then show ?thesis
      using st by (simp add: same_tail_def)
  next
    case False
    have ok: "stack_ok (init_rescope l)"
      using False by (simp add: stack_ok_def init_rescope_def)
    show ?thesis
      by (rule rescope_loop_inv [OF st ok]) (simp_all add: init_rescope_def ids)
  qed
  then show ?thesis
    unfolding l' by (simp add: same_tail_def init_rescope_def)
qed

lemma resort_ids_ok:
  assumes "count l \<le> length (eventData l)" and "count l \<le> 2 ^ 32"
  shows "ids_ok (resortEvents l)"
  using assms resort_nth [OF assms(1)]
  by (simp add: ids_ok_def resort_fields(1) length_resort)

lemma resort_wf:
  assumes "wf_list l"
  shows "wf_list (resortEvents l)"
proof -
  have c: "count l \<le> length (eventData l)"
    using assms by (auto simp: wf_list_def)
  have "drop (count l) (eventData (resortEvents l))
        = replicate (length (eventData l) - count l) zero_struct"
    by (simp add: resort_eventData [OF c] length_renumbered length_sortIndex)
  then show ?thesis
    using assms by (simp add: wf_list_def resort_fields(1,2) length_resort)
qed

lemma wf_list_same:
  assumes "wf_list l" and "same_keys l l'" and "same_tail l l'"
  shows "wf_list l'"
  using assms same_keys_length [OF assms(2)]
  by (simp add: wf_list_def same_keys_def same_tail_def)

lemma rebuild_inv:
  assumes wf: "wf_list l" and b: "count l \<le> 2 ^ 32" and r: "rebuild S l = Inr l'"
  shows "wf_list l' \<and> ids_ok l'"
proof -
  have c: "count l \<le> length (eventData l)"
    using wf by (auto simp: wf_list_def)
  have i: "ids_ok (resortEvents l)"
    by (rule resort_ids_ok [OF c b])
  have r': "rescopeEvents S (resortEvents l) = Inr l'"
    using r by (simp add: rebuild_def)
  have sk: "same_keys (resortEvents l) l'"
    by (rule rescopeEvents_same_keys [OF r'])
  have stl: "same_tail (resortEvents l) l'"
    by (rule rescopeEvents_same_tail [OF r' i])
  show ?thesis
    using wf_list_same [OF resort_wf [OF wf] sk stl] same_keys_ids_ok [OF sk i] by blast
qed

lemma ids_ok_new: "ids_ok (new_EventList t)"
  by (simp add: ids_ok_def new_EventList_def)

text \<open>
  Claim C1. Take a list whose buffer and ID cells are in order, as the fresh list and
  every rebuilt list are, and insert any events (with fewer than \<open>2 ^ 32\<close> records in
  all, which every buffer that fits a typed array satisfies). Before the resort the
  stored records keep their places and the new records follow them in the order of
  insertion, each with its position in its ID cell, so the position of a record is its
  rank in insertion order and its original ID. Let \<open>\<sigma>\<close> be the sort index that the
  resort builds: \<open>\<sigma> ! i\<close> is the position before the resort of the record that ends at
  position \<open>i\<close>. Then \<open>\<sigma>\<close> is a permutation of the positions; the records end in
  ascending order of TIME and, among equal times, of original position; record \<open>i\<close> of
  the resorted buffer is the record \<open>\<sigma> ! i\<close> with its ID cell set to \<open>i\<close>; and both
  after the resort and after a rebuild that returns, the list stores all the records,
  with ID cell \<open>i\<close> and the TIME cell of the record \<open>\<sigma> ! i\<close> at every position \<open>i\<close>,
  and its buffer and ID cells are in order again, ready for the next batch.
\<close>

theorem rebuild_sorts:
  assumes wf: "wf_list l0" and ids: "ids_ok l0" and n: "count l0 + length es < 2 ^ 32"
  shows "let l = insert_all l0 es;
             c = count l0 + length es;
             \<sigma> = sortIndex l;
             T = (\<lambda>k. unat (es_TIME (eventData l ! k)))
         in (\<forall>k < count l0. eventData l ! k = eventData l0 ! k)
            \<and> (\<forall>k < length es.
                  es_ID (eventData l ! (count l0 + k)) = of_nat (count l0 + k)
                  \<and> es_TIME (eventData l ! (count l0 + k)) = word_of_int (fst (snd (es ! k))))
            \<and> distinct \<sigma> \<and> set \<sigma> = {0..<c}
            \<and> (\<forall>i j. i < j \<and> j < c \<longrightarrow>
                  T (\<sigma> ! i) < T (\<sigma> ! j) \<or> (T (\<sigma> ! i) = T (\<sigma> ! j) \<and> \<sigma> ! i < \<sigma> ! j))
            \<and> (\<forall>i < c.
                  eventData (resortEvents l) ! i = (eventData l ! (\<sigma> ! i))\<lparr>es_ID := of_nat i\<rparr>)
            \<and> (\<forall>l'. l' = resortEvents l \<or> rebuild S l = Inr l' \<longrightarrow>
                  count l' = c
                  \<and> (\<forall>i < c. es_ID (eventData l' ! i) = of_nat i
                               \<and> unat (es_TIME (eventData l' ! i)) = T (\<sigma> ! i))
                  \<and> wf_list l' \<and> ids_ok l')"
proof -
  define l where "l = insert_all l0 es"
  define c where "c = count l0 + length es"
  define \<sigma> where "\<sigma> = sortIndex l"
  let ?T = "\<lambda>k. unat (es_TIME (eventData l ! k))"
  note ia = insert_all_props [OF wf, of es, folded l_def]
  have wfl: "wf_list l" and cnt: "count l = c"
    using ia by (simp_all add: c_def)
  have old: "\<forall>k < count l0. eventData l ! k = eventData l0 ! k"
  proof (intro allI impI)
    fix k assume k: "k < count l0"
    have "take (count l0) (eventData l) ! k = take (count l0) (eventData l0) ! k"
      using ia by simp
    then show "eventData l ! k = eventData l0 ! k"
      using k by simp
  qed
  have new: "\<forall>k < length es.
      es_ID (eventData l ! (count l0 + k)) = of_nat (count l0 + k)
      \<and> es_TIME (eventData l ! (count l0 + k)) = word_of_int (fst (snd (es ! k)))"
    using ia by simp
  have cl: "count l \<le> length (eventData l)"
    using wfl by (auto simp: wf_list_def)
  have idk: "es_ID (eventData l ! k) = of_nat k" if "k < c" for k
  proof (cases "k < count l0")
    case True
    then show ?thesis using old ids by (simp add: ids_ok_def)
  next
    case False
    then have "k - count l0 < length es" "count l0 + (k - count l0) = k"
      using that by (simp_all add: c_def)
    then show ?thesis using new by metis
  qed
  have ids_nat: "\<forall>k < count l. unat (es_ID (eventData l ! k)) = k"
  proof (intro allI impI)
    fix k assume "k < count l"
    then have k: "k < c" using cnt by simp
    then have "k < 2 ^ 32" using n by (simp add: c_def)
    then have "unat (of_nat k :: 32 word) = k"
      by (simp add: unat_of_nat take_bit_eq_mod)
    then show "unat (es_ID (eventData l ! k)) = k"
      using idk [OF k] by simp
  qed
  have d: "distinct \<sigma>" and st: "set \<sigma> = {0..<c}"
    using distinct_sortIndex [of l] set_sortIndex [of l] cnt by (simp_all add: \<sigma>_def)
  have ord: "\<forall>i j. i < j \<and> j < c \<longrightarrow>
      ?T (\<sigma> ! i) < ?T (\<sigma> ! j) \<or> (?T (\<sigma> ! i) = ?T (\<sigma> ! j) \<and> \<sigma> ! i < \<sigma> ! j)"
    unfolding \<sigma>_def using sortIndex_order [OF ids_nat] cnt by simp
  have rs: "\<forall>i < c.
      eventData (resortEvents l) ! i = (eventData l ! (\<sigma> ! i))\<lparr>es_ID := of_nat i\<rparr>"
    using resort_nth [OF cl] cnt by (simp add: \<sigma>_def)
  have rs_cells: "\<And>i. i < c \<Longrightarrow>
      es_ID (eventData (resortEvents l) ! i) = of_nat i
      \<and> unat (es_TIME (eventData (resortEvents l) ! i)) = ?T (\<sigma> ! i)"
    using rs by simp
  have b: "count l \<le> 2 ^ 32"
    using n cnt by (simp add: c_def)
  have fin: "\<forall>l'. l' = resortEvents l \<or> rebuild S l = Inr l' \<longrightarrow>
      count l' = c
      \<and> (\<forall>i < c. es_ID (eventData l' ! i) = of_nat i
            \<and> unat (es_TIME (eventData l' ! i)) = ?T (\<sigma> ! i))
      \<and> wf_list l' \<and> ids_ok l'"
  proof (intro allI impI)
    fix l' assume "l' = resortEvents l \<or> rebuild S l = Inr l'"
    then show "count l' = c
      \<and> (\<forall>i < c. es_ID (eventData l' ! i) = of_nat i
            \<and> unat (es_TIME (eventData l' ! i)) = ?T (\<sigma> ! i))
      \<and> wf_list l' \<and> ids_ok l'"
    proof
      assume e: "l' = resortEvents l"
      have "count (resortEvents l) = c"
        using cnt by (simp add: resort_fields(1))
      then show ?thesis
        unfolding e using rs_cells resort_wf [OF wfl] resort_ids_ok [OF cl b] by blast
    next
      assume r: "rebuild S l = Inr l'"
      then have sk: "same_keys (resortEvents l) l'"
        unfolding rebuild_def by (rule rescopeEvents_same_keys)
      have c': "count l' = c"
        using sk cnt by (simp add: same_keys_def resort_fields(1))
      have "\<And>i. i < c \<Longrightarrow> i < length (eventData (resortEvents l))"
        using cl cnt by (simp add: length_resort)
      then have "\<And>i. i < c \<Longrightarrow>
          es_ID (eventData l' ! i) = es_ID (eventData (resortEvents l) ! i)
          \<and> es_TIME (eventData l' ! i) = es_TIME (eventData (resortEvents l) ! i)"
        using same_keys_nth [OF sk] by simp
      then have "\<forall>i < c. es_ID (eventData l' ! i) = of_nat i
            \<and> unat (es_TIME (eventData l' ! i)) = ?T (\<sigma> ! i)"
        using rs_cells by simp
      then show ?thesis
        using c' rebuild_inv [OF wfl b r] by blast
    qed
  qed
  show ?thesis
    unfolding Let_def l_def [symmetric] c_def [symmetric] \<sigma>_def [symmetric]
    by (intro conjI old new d st ord rs fin)
qed

theorem rebuild_sorts_witness:
  "(let X = \<lparr>type_id = 1, type_name = ''X'', eventClass = INSTANCE, flags = 0\<rparr>;
        t = snd (defineType new_EventTypeTable (declared ''X'' INSTANCE 0));
        es = [(X, 5, None), (X, 3, None), (X, 5, None)];
        l = insert_all (new_EventList t) es
    in wf_list (new_EventList t) \<and> ids_ok (new_EventList t)
       \<and> count (new_EventList t) + length es < 2 ^ 32
       \<and> sortIndex l = [1, 0, 2]
       \<and> (\<exists>l'. rebuild 4 l = Inr l' \<and> count l' = 3
              \<and> es_ID (eventData l' ! 0) = 0 \<and> unat (es_TIME (eventData l' ! 0)) = 3
              \<and> es_ID (eventData l' ! 1) = 1 \<and> unat (es_TIME (eventData l' ! 1)) = 5
              \<and> es_ID (eventData l' ! 2) = 2 \<and> unat (es_TIME (eventData l' ! 2)) = 5
              \<and> wf_list l' \<and> ids_ok l'))"
proof -
  define X where "X = \<lparr>type_id = 1, type_name = ''X'', eventClass = INSTANCE, flags = 0\<rparr>"
  define t where "t = snd (defineType new_EventTypeTable (declared ''X'' INSTANCE 0))"
  define es :: "(EventType \<times> int \<times> ArgumentData option) list"
    where "es = [(X, 5, None), (X, 3, None), (X, 5, None)]"
  define l where "l = insert_all (new_EventList t) es"
  have c0: "count (new_EventList t) = 0"
    by (simp add: new_EventList_def)
  have len: "count (new_EventList t) + length es < 2 ^ 32"
    by (simp add: c0 es_def)
  have ix: "sortIndex l = [1, 0, 2]"
    by (simp add: l_def es_def X_def t_def run_defs)
  have "\<exists>l'. rebuild 4 l = Inr l'"
    by (simp add: l_def es_def X_def t_def run_defs)
  then obtain l' where r: "rebuild 4 l = Inr l'" ..
  note th = rebuild_sorts [OF wf_new ids_ok_new len, of 4, unfolded Let_def c0, folded l_def]
  have times: "\<forall>k < length es.
      es_TIME (eventData l ! (0 + k)) = word_of_int (fst (snd (es ! k)))"
    using th by blast
  have T: "unat (es_TIME (eventData l ! 0)) = 5" "unat (es_TIME (eventData l ! 1)) = 3"
    "unat (es_TIME (eventData l ! 2)) = 5"
    using times by (simp_all add: es_def)
  have "count l' = 0 + length es
        \<and> (\<forall>i < 0 + length es. es_ID (eventData l' ! i) = of_nat i
              \<and> unat (es_TIME (eventData l' ! i)) = unat (es_TIME (eventData l ! (sortIndex l ! i))))
        \<and> wf_list l' \<and> ids_ok l'"
    using th r by blast
  then have "count l' = 3
      \<and> es_ID (eventData l' ! 0) = 0 \<and> unat (es_TIME (eventData l' ! 0)) = 3
      \<and> es_ID (eventData l' ! 1) = 1 \<and> unat (es_TIME (eventData l' ! 1)) = 5
      \<and> es_ID (eventData l' ! 2) = 2 \<and> unat (es_TIME (eventData l' ! 2)) = 5
      \<and> wf_list l' \<and> ids_ok l'"
    unfolding ix using T by (simp add: es_def)
  then show ?thesis
    unfolding Let_def X_def [symmetric] t_def [symmetric] es_def [symmetric] l_def [symmetric]
    using len ix r wf_new ids_ok_new by blast
qed

section \<open>Properties of the frame list\<close>

lemma fold_delete_None:
  assumes "f \<in> set fs" and "\<not> is_complete f"
  shows "fold (\<lambda>f m. if is_complete f then m else m(number f := None)) fs m (number f) = None"
  using assms
proof (induction fs arbitrary: m rule: rev_induct)
  case Nil
  then show ?case by simp
next
  case (snoc x xs)
  then show ?case by auto
qed

lemma incomplete_iff: "startEvent f = None \<or> endEvent f = None \<Longrightarrow> \<not> is_complete f"
  by (auto simp: is_complete_def Frame_getTime_def Frame_getEndTime_def)

lemma complete_has_both: "is_complete f \<Longrightarrow> startEvent f \<noteq> None \<and> endEvent f \<noteq> None"
  by (auto simp: is_complete_def Frame_getTime_def Frame_getEndTime_def split: option.splits)

lemmas frame_defs = getArguments_def getArgument_def new_Frame_def setStartEvent_def setEndEvent_def
  Frame_getTime_def Frame_getEndTime_def new_FrameList_def getCount_def beginRebuild_def handleEvent_def
  is_complete_def endRebuild_def dispatch_def rebuildAncillaryLists_def clamp_def getFrameAtTime_def

text \<open>
  Claim C8. After \<^verbatim>\<open>endRebuild\<close> every frame in the dense list, which is what
  \<^verbatim>\<open>getCount\<close> counts, was there before and has both a start and an end event; a
  frame of the list that lacks either is in the list no more, and the map has no entry
  under its number. On \<open>frame_example\<close>, rebuilt and handed to a fresh frame list, the
  count is 1 and the frame at 10 ms is frame 1, whatever the binary search returns.
\<close>

theorem endRebuild_keeps_complete_frames:
  "(\<forall>f \<in> set (frameList (endRebuild fl)).
      f \<in> set (frameList fl) \<and> startEvent f \<noteq> None \<and> endEvent f \<noteq> None)
   \<and> getCount (endRebuild fl) = length (filter is_complete (frameList fl))
   \<and> (\<forall>f \<in> set (frameList fl).
        startEvent f = None \<or> endEvent f = None \<longrightarrow>
        f \<notin> set (frameList (endRebuild fl)) \<and> frames (endRebuild fl) (number f) = None)
   \<and> (case rebuild 4 frame_example of
        Inl err \<Rightarrow> False
      | Inr l \<Rightarrow>
          (let fl' = rebuildAncillaryLists l new_FrameList;
               frame1 = \<lparr>number = Some (IntValue 1), startEvent = Some 1, endEvent = Some 17\<rparr>
           in getCount fl' = 1
              \<and> frameList fl' = [frame1]
              \<and> frames fl' (Some (IntValue 1)) = Some frame1
              \<and> frames fl' (Some (IntValue 2)) = None
              \<and> getFrameAtTime binarySelect fl' 10 = Some frame1))"
proof -
  have a: "\<forall>f \<in> set (frameList (endRebuild fl)).
      f \<in> set (frameList fl) \<and> startEvent f \<noteq> None \<and> endEvent f \<noteq> None"
    using complete_has_both by (auto simp: endRebuild_def)
  have b: "getCount (endRebuild fl) = length (filter is_complete (frameList fl))"
    by (simp add: getCount_def endRebuild_def)
  have c: "\<forall>f \<in> set (frameList fl).
        startEvent f = None \<or> endEvent f = None \<longrightarrow>
        f \<notin> set (frameList (endRebuild fl)) \<and> frames (endRebuild fl) (number f) = None"
    using incomplete_iff fold_delete_None by (auto simp: endRebuild_def)
  have d: "(case rebuild 4 frame_example of
        Inl err \<Rightarrow> False
      | Inr l \<Rightarrow>
          (let fl' = rebuildAncillaryLists l new_FrameList;
               frame1 = \<lparr>number = Some (IntValue 1), startEvent = Some 1, endEvent = Some 17\<rparr>
           in getCount fl' = 1
              \<and> frameList fl' = [frame1]
              \<and> frames fl' (Some (IntValue 1)) = Some frame1
              \<and> frames fl' (Some (IntValue 2)) = None
              \<and> getFrameAtTime binarySelect fl' 10 = Some frame1))"
    by (simp add: frame_example_def run_defs frame_defs)
  show ?thesis
    using a b c d by blast
qed

theorem endRebuild_keeps_complete_frames_witness:
  "(let f1 = \<lparr>number = Some (IntValue 1), startEvent = Some 1, endEvent = Some 17\<rparr>;
        f2 = \<lparr>number = Some (IntValue 2), startEvent = Some 17, endEvent = None\<rparr>;
        fl = \<lparr>frames = [Some (IntValue 1) \<mapsto> f1, Some (IntValue 2) \<mapsto> f2], frameList = [f1, f2]\<rparr>
    in f2 \<in> set (frameList fl) \<and> endEvent f2 = None
       \<and> f2 \<notin> set (frameList (endRebuild fl)) \<and> frames (endRebuild fl) (number f2) = None
       \<and> f1 \<in> set (frameList (endRebuild fl)) \<and> startEvent f1 \<noteq> None \<and> endEvent f1 \<noteq> None
       \<and> getCount (endRebuild fl) = 1)"
proof -
  define f1 where "f1 = \<lparr>number = Some (IntValue 1), startEvent = Some 1, endEvent = Some 17\<rparr>"
  define f2 where "f2 = \<lparr>number = Some (IntValue 2), startEvent = Some (17::real), endEvent = None\<rparr>"
  define fl where
    "fl = \<lparr>frames = [Some (IntValue 1) \<mapsto> f1, Some (IntValue 2) \<mapsto> f2], frameList = [f1, f2]\<rparr>"
  have m2: "f2 \<in> set (frameList fl)" and e2: "endEvent f2 = None"
    by (simp_all add: fl_def f2_def)
  have m1: "f1 \<in> set (frameList (endRebuild fl))"
    by (simp add: fl_def f1_def f2_def frame_defs)
  have n: "length (filter is_complete (frameList fl)) = 1"
    by (simp add: fl_def f1_def f2_def frame_defs)
  note t = endRebuild_keeps_complete_frames [of fl]
  have "f2 \<notin> set (frameList (endRebuild fl)) \<and> frames (endRebuild fl) (number f2) = None"
    using t m2 e2 by blast
  moreover have "startEvent f1 \<noteq> None \<and> endEvent f1 \<noteq> None"
    using t m1 by blast
  moreover have "getCount (endRebuild fl) = 1"
    using t [THEN conjunct2, THEN conjunct1] n by simp
  ultimately show ?thesis
    unfolding Let_def f1_def [symmetric] f2_def [symmetric] fl_def [symmetric]
    using m2 e2 m1 by blast
qed

end
